theory Spec2Isabelle
  imports Complex_Main "HOL-Library.Word"
begin

unbundle bit_operations_syntax

section \<open>EvoSim: gene codec, brain, grid world and generation loop\<close>

text \<open>
  A shallow embedding of the simulation core of EvoSim (\<^verbatim>\<open>genome.py\<close>,
  \<^verbatim>\<open>neural_network.py\<close>, \<^verbatim>\<open>world.py\<close>, \<^verbatim>\<open>creature.py\<close>, \<^verbatim>\<open>simulation.py\<close>).
  Python integers are \<^typ>\<open>int\<close>; bit operations on them are the two's-complement
  operations of HOL on \<^typ>\<open>int\<close> (\<open>>>\<close> is \<^const>\<open>drop_bit\<close>, \<open><<\<close> is
  \<^const>\<open>push_bit\<close>). Python and numpy floating-point numbers are idealised as
  \<^typ>\<open>real\<close>: rounding, infinities and NaN are not modelled.
\<close>

subsection \<open>Configuration constants (\<^verbatim>\<open>config.py\<close>)\<close>

definition NUM_SENSORS :: int where "NUM_SENSORS = 14"
definition NUM_ACTIONS :: int where "NUM_ACTIONS = 8"
definition MAX_INTERNAL_NEURONS :: int where "MAX_INTERNAL_NEURONS = 4"
definition WEIGHT_DIVISOR :: int where "WEIGHT_DIVISOR = 8000"

subsection \<open>Gene codec (\<^verbatim>\<open>genome.py\<close>)\<close>

text \<open>The dictionary returned by \<^verbatim>\<open>decode_gene\<close>; its keys are the fields.\<close>

record conn =
  source_type :: int
  source_id :: int
  sink_type :: int
  sink_id :: int
  weight :: real

definition decode_gene :: "int \<Rightarrow> conn" where
  "decode_gene gene =
    (let stype = drop_bit 31 gene AND 0x1;
         sid = drop_bit 24 gene AND 0x7F;
         ktype = drop_bit 23 gene AND 0x1;
         kid = drop_bit 16 gene AND 0x7F;
         raw_weight = gene AND 0xFFFF;
         raw_weight = (if raw_weight \<ge> 0x8000 then raw_weight - 0x10000 else raw_weight);
         w = real_of_int raw_weight / real_of_int WEIGHT_DIVISOR;
         sid = (if stype = 0 then sid mod NUM_SENSORS
                else sid mod max 1 MAX_INTERNAL_NEURONS);
         kid = (if ktype = 1 then kid mod NUM_ACTIONS
                else kid mod max 1 MAX_INTERNAL_NEURONS)
     in \<lparr>source_type = stype, source_id = sid,
         sink_type = ktype, sink_id = kid, weight = w\<rparr>)"

text \<open>Python's \<^verbatim>\<open>int(x)\<close> on a float truncates towards zero.\<close>

definition py_int :: "real \<Rightarrow> int" where
  "py_int v = (if v < 0 then \<lceil>v\<rceil> else \<lfloor>v\<rfloor>)"

definition encode_gene :: "int \<Rightarrow> int \<Rightarrow> int \<Rightarrow> int \<Rightarrow> real \<Rightarrow> int" where
  "encode_gene stype sid ktype kid weight_float =
    (let raw_weight = py_int (weight_float * real_of_int WEIGHT_DIVISOR);
         raw_weight = max (- 32768) (min 32767 raw_weight);
         raw_weight = (if raw_weight < 0 then raw_weight + 0x10000 else raw_weight);
         gene = push_bit 31 (stype AND 0x1);
         gene = gene OR push_bit 24 (sid AND 0x7F);
         gene = gene OR push_bit 23 (ktype AND 0x1);
         gene = gene OR push_bit 16 (kid AND 0x7F);
         gene = gene OR (raw_weight AND 0xFFFF)
     in gene)"

text \<open>
  \<^verbatim>\<open>bin(v).count('1')\<close>: the binary numeral of a negative number is a minus sign
  followed by the digits of its absolute value, so the ones counted are those of \<open>\<bar>v\<bar>\<close>.
\<close>

fun count_ones :: "nat \<Rightarrow> nat" where
  "count_ones n = (if n = 0 then 0 else n mod 2 + count_ones (n div 2))"

declare count_ones.simps [simp del]

definition bin_count1 :: "int \<Rightarrow> int" where
  "bin_count1 v = int (count_ones (nat \<bar>v\<bar>))"

text \<open>The loop of \<^verbatim>\<open>genome_similarity\<close> over the zipped genomes, on \<open>(total_bits, matching)\<close>.\<close>

fun similarity_loop :: "(int \<times> int) list \<Rightarrow> int \<times> int \<Rightarrow> int \<times> int" where
  "similarity_loop [] (total_bits, matching) = (total_bits, matching)"
| "similarity_loop ((a, b) # rest) (total_bits, matching) =
     similarity_loop rest (total_bits + 32, matching + (32 - bin_count1 (a XOR b)))"

definition genome_similarity :: "int list \<Rightarrow> int list \<Rightarrow> real" where
  "genome_similarity genome_a genome_b =
    (if genome_a = [] \<or> genome_b = [] then 0
     else (case similarity_loop (zip genome_a genome_b) (0, 0) of
             (total_bits, matching) \<Rightarrow>
               if total_bits \<noteq> 0 then real_of_int matching / real_of_int total_bits else 1))"

text \<open>The packed word, with the masks written as \<^const>\<open>take_bit\<close>.\<close>

definition pack :: "int \<Rightarrow> int \<Rightarrow> int \<Rightarrow> int \<Rightarrow> int \<Rightarrow> int" where
  "pack a b c d w =
     ((((push_bit 31 (take_bit 1 a) OR push_bit 24 (take_bit 7 b)) OR push_bit 23 (take_bit 1 c))
       OR push_bit 16 (take_bit 7 d)) OR take_bit 16 w)"

subsection \<open>Brain (\<^verbatim>\<open>neural_network.py\<close>)\<close>

text \<open>\<^verbatim>\<open>NeuralNetwork._parse_genome\<close>: one connection per gene, in genome order.\<close>

definition parse_genome :: "int list \<Rightarrow> conn list" where
  "parse_genome genome = map decode_gene genome"

text \<open>
  One run of the \<^verbatim>\<open>for c in connections\<close> loop inside the \<^verbatim>\<open>while changed\<close> loop of
  \<^verbatim>\<open>_prune_dead_ends\<close>, on the pair \<open>(useful, changed)\<close>. The set grows while the loop
  runs, so a later connection already sees the ids added by an earlier one.
\<close>

fun useful_pass :: "conn list \<Rightarrow> int set \<Rightarrow> bool \<Rightarrow> int set \<times> bool" where
  "useful_pass [] useful changed = (useful, changed)"
| "useful_pass (c # cs) useful changed =
     (if sink_type c = 1 then
        (if source_type c = 1 \<and> source_id c \<notin> useful
         then useful_pass cs (insert (source_id c) useful) True
         else useful_pass cs useful changed)
      else if sink_type c = 0 \<and> sink_id c \<in> useful then
        (if source_type c = 1 \<and> source_id c \<notin> useful
         then useful_pass cs (insert (source_id c) useful) True
         else useful_pass cs useful changed)
      else useful_pass cs useful changed)"

text \<open>
  The \<^verbatim>\<open>while changed\<close> loop: a pass starts with \<open>changed = False\<close> and the loop goes on
  as long as a pass has added an id. Every such pass adds a source id of the connection
  list that was not in the set, which bounds the number of passes.
\<close>

function useful_loop :: "conn list \<Rightarrow> int set \<Rightarrow> int set" where
  "useful_loop connections useful =
     (case useful_pass connections useful False of
        (useful', changed) \<Rightarrow> if changed then useful_loop connections useful' else useful')"
  by pat_completeness auto
termination
proof (relation "measure (\<lambda>(connections, useful). card (source_id ` set connections - useful))",
    goal_cases)
  case 1
  show ?case by simp
next
  case (2 connections useful useful' changed)
  then have p: "(useful', changed) = useful_pass connections useful False" and ch: "changed"
    by simp_all
  have grow: "\<And>u b. u \<subseteq> fst (useful_pass cs u b)
      \<and> fst (useful_pass cs u b) \<subseteq> u \<union> source_id ` set cs
      \<and> (snd (useful_pass cs u b) \<longrightarrow> b \<or> fst (useful_pass cs u b) \<noteq> u)" for cs
  proof (induction cs)
    case Nil
    show ?case by simp
  next
    case (Cons c cs)
    have ins: "insert (source_id c) u \<subseteq> fst (useful_pass cs (insert (source_id c) u) True)"
      using Cons [of "insert (source_id c) u" True] by blast
    have ins': "fst (useful_pass cs (insert (source_id c) u) True)
        \<subseteq> insert (source_id c) u \<union> source_id ` set cs"
      using Cons [of "insert (source_id c) u" True] by blast
    show ?case
      using Cons [of u b] ins ins' by (auto split: if_splits)
  qed
  let ?S = "source_id ` set connections"
  from grow [of useful connections False] p ch
  have 1: "useful \<subseteq> useful'" and 2: "useful' \<subseteq> useful \<union> ?S" and 3: "useful' \<noteq> useful"
    by (auto simp add: fst_def snd_def split: prod.splits)
  from 1 2 3 obtain v where v: "v \<in> ?S" "v \<in> useful'" "v \<notin> useful" by blast
  have "?S - useful' \<subset> ?S - useful" using 1 v by blast
  then have "card (?S - useful') < card (?S - useful)"
    by (intro psubset_card_mono) simp_all
  then show ?case
    by simp
qed

declare useful_loop.simps [simp del]

text \<open>\<^verbatim>\<open>NeuralNetwork._prune_dead_ends\<close>.\<close>

definition prune_dead_ends :: "conn list \<Rightarrow> conn list" where
  "prune_dead_ends connections =
     (let useful = useful_loop connections {}
      in filter (\<lambda>c. sink_type c = 1 \<or> sink_id c \<in> useful) connections)"

text \<open>The connection list a \<^verbatim>\<open>NeuralNetwork\<close> holds after \<^verbatim>\<open>__init__\<close>.\<close>

definition brain_connections :: "int list \<Rightarrow> conn list" where
  "brain_connections genome = prune_dead_ends (parse_genome genome)"

text \<open>
  The set the specification describes: an internal neuron is useful if it feeds an action
  directly, or feeds another useful internal neuron.
\<close>

inductive_set useful_spec :: "conn list \<Rightarrow> int set" for connections :: "conn list" where
  feeds_action:
    "c \<in> set connections \<Longrightarrow> source_type c = 1 \<Longrightarrow> sink_type c = 1
       \<Longrightarrow> source_id c \<in> useful_spec connections"
| feeds_useful:
    "c \<in> set connections \<Longrightarrow> source_type c = 1 \<Longrightarrow> sink_type c = 0
       \<Longrightarrow> sink_id c \<in> useful_spec connections
       \<Longrightarrow> source_id c \<in> useful_spec connections"

text \<open>
  Indexing a Python list or a numpy array of length \<open>n\<close>: a negative index counts from the
  end, anything outside \<open>-n .. n-1\<close> raises \<^verbatim>\<open>IndexError\<close>. The exceptions of the
  model are the two that the core can raise on well-typed arguments.
\<close>

datatype error = IndexError | ZeroDivisionError

definition py_index :: "nat \<Rightarrow> int \<Rightarrow> nat option" where
  "py_index n i =
     (if 0 \<le> i \<and> i < int n then Some (nat i)
      else if - int n \<le> i \<and> i < 0 then Some (nat (i + int n))
      else None)"

definition arr_get :: "'a list \<Rightarrow> int \<Rightarrow> error + 'a" where
  "arr_get xs i = (case py_index (length xs) i of None \<Rightarrow> Inl IndexError | Some j \<Rightarrow> Inr (xs ! j))"

definition arr_set :: "'a list \<Rightarrow> int \<Rightarrow> 'a \<Rightarrow> error + 'a list" where
  "arr_set xs i v =
     (case py_index (length xs) i of None \<Rightarrow> Inl IndexError | Some j \<Rightarrow> Inr (xs[j := v]))"

text \<open>\<^verbatim>\<open>arr[i] += v\<close>.\<close>

definition arr_add :: "real list \<Rightarrow> int \<Rightarrow> real \<Rightarrow> error + real list" where
  "arr_add xs i v =
     (case py_index (length xs) i of
        None \<Rightarrow> Inl IndexError
      | Some j \<Rightarrow> Inr (xs[j := xs ! j + v]))"

text \<open>
  Both accumulation passes of \<^verbatim>\<open>forward\<close> have the same body; they differ in the sink
  type they select (\<open>0\<close> for the internal loop, \<open>1\<close> for the action loop) and in the array
  they add into. \<open>wanted\<close> is that sink type and \<open>totals\<close> the array.
\<close>

fun accumulate :: "int \<Rightarrow> conn list \<Rightarrow> real list \<Rightarrow> real list \<Rightarrow> real list \<Rightarrow> error + real list" where
  "accumulate wanted [] sensor_inputs internal_vals totals = Inr totals"
| "accumulate wanted (c # cs) sensor_inputs internal_vals totals =
     (if sink_type c = wanted then
        (case (if source_type c = 0 then arr_get sensor_inputs (source_id c)
               else arr_get internal_vals (source_id c)) of
           Inl e \<Rightarrow> Inl e
         | Inr src \<Rightarrow>
             (case arr_add totals (sink_id c) (src * weight c) of
                Inl e \<Rightarrow> Inl e
              | Inr totals' \<Rightarrow> accumulate wanted cs sensor_inputs internal_vals totals'))
      else accumulate wanted cs sensor_inputs internal_vals totals)"

text \<open>
  The \<^verbatim>\<open>for _ in range(2)\<close> loop: each round accumulates into a fresh zero array and
  replaces the internal activations by its \<open>tanh\<close>.
\<close>

fun propagate :: "nat \<Rightarrow> conn list \<Rightarrow> real list \<Rightarrow> real list \<Rightarrow> error + real list" where
  "propagate 0 connections sensor_inputs internal_vals = Inr internal_vals"
| "propagate (Suc n) connections sensor_inputs internal_vals =
     (case accumulate 0 connections sensor_inputs internal_vals
             (replicate (nat MAX_INTERNAL_NEURONS) 0) of
        Inl e \<Rightarrow> Inl e
      | Inr new_internal \<Rightarrow> propagate n connections sensor_inputs (map tanh new_internal))"

text \<open>
  \<^verbatim>\<open>NeuralNetwork.forward\<close>. Both state vectors are reset on entry, so the result
  depends on the connection list and the sensor vector only.
\<close>

definition forward :: "conn list \<Rightarrow> real list \<Rightarrow> error + real list" where
  "forward connections sensor_inputs =
     (case propagate 2 connections sensor_inputs (replicate (nat MAX_INTERNAL_NEURONS) 0) of
        Inl e \<Rightarrow> Inl e
      | Inr internal_vals \<Rightarrow>
          (case accumulate 1 connections sensor_inputs internal_vals
                  (replicate (nat NUM_ACTIONS) 0) of
             Inl e \<Rightarrow> Inl e
           | Inr action_sums \<Rightarrow> Inr (map tanh action_sums)))"

subsection \<open>Action choice (\<^verbatim>\<open>Creature.step\<close>)\<close>

definition THRESHOLD :: real where "THRESHOLD = 1 / 10"

text \<open>The \<^verbatim>\<open>for i, v in enumerate(actions)\<close> loop on \<open>(best_act, best_val)\<close>.\<close>

fun choose_loop :: "(nat \<times> real) list \<Rightarrow> nat option \<times> real \<Rightarrow> nat option \<times> real" where
  "choose_loop [] (best_act, best_val) = (best_act, best_val)"
| "choose_loop ((i, v) # rest) (best_act, best_val) =
     (if \<bar>v\<bar> > best_val then choose_loop rest (Some i, \<bar>v\<bar>)
      else choose_loop rest (best_act, best_val))"

definition choose_action :: "real list \<Rightarrow> nat option" where
  "choose_action actions = fst (choose_loop (enumerate 0 actions) (None, THRESHOLD))"

subsection \<open>Creatures and the grid world (\<^verbatim>\<open>creature.py\<close>, \<^verbatim>\<open>world.py\<close>)\<close>

text \<open>
  A \<^verbatim>\<open>Creature\<close> object. The fields \<^verbatim>\<open>x\<close> and \<^verbatim>\<open>y\<close> are \<open>pos_x\<close> and \<open>pos_y\<close>;
  \<open>brain\<close> is the connection list of the creature's \<^verbatim>\<open>NeuralNetwork\<close>, whose two state
  vectors are reset by every forward pass and so carry nothing from one step to the next.
  The display colour, which nothing in the simulation reads, is left out.
\<close>

record creature =
  pos_x :: int
  pos_y :: int
  genome :: "int list"
  brain :: "conn list"
  alive :: bool
  age :: int
  last_dir :: int
  radiation_dose :: real
  osc_phase :: real

text \<open>
  Creatures are mutable objects that the grid, the world's list and the simulation's list
  all refer to. A reference is an index \<open>cid\<close> into \<open>store\<close>, the objects themselves;
  \<^verbatim>\<open>is\<close> compares references. \<open>rng\<close> is the state of the world's random generator, of a
  type left open.
\<close>

type_synonym cid = nat

record 'r world =
  width :: int
  height :: int
  rng :: 'r
  grid :: "cid option list list"
  creatures :: "cid list"
  murder_count :: int
  store :: "cid \<Rightarrow> creature"

text \<open>The 8 compass directions \<^verbatim>\<open>DIRS\<close> of \<^verbatim>\<open>creature.py\<close>.\<close>

definition DIRS :: "(int \<times> int) list" where
  "DIRS = [(1, 0), (1, 1), (0, 1), (- 1, 1), (- 1, 0), (- 1, - 1), (0, - 1), (1, - 1)]"

text \<open>\<^verbatim>\<open>[[None] * width for _ in range(height)]\<close>; a negative count gives an empty list.\<close>

definition empty_grid :: "int \<Rightarrow> int \<Rightarrow> cid option list list" where
  "empty_grid w h = replicate (nat h) (replicate (nat w) None)"

text \<open>\<^verbatim>\<open>World.__init__\<close>, given the generator state the seed produces and the objects.\<close>

definition World_init :: "int \<Rightarrow> int \<Rightarrow> 'r \<Rightarrow> (cid \<Rightarrow> creature) \<Rightarrow> 'r world" where
  "World_init w h r objs =
     \<lparr>width = w, height = h, rng = r, grid = empty_grid w h, creatures = [],
      murder_count = 0, store = objs\<rparr>"

text \<open>\<^verbatim>\<open>self._grid[gy][gx]\<close> and \<^verbatim>\<open>self._grid[gy][gx] = v\<close>.\<close>

definition grid_get :: "cid option list list \<Rightarrow> int \<Rightarrow> int \<Rightarrow> error + cid option" where
  "grid_get g gx gy = (case arr_get g gy of Inl e \<Rightarrow> Inl e | Inr row \<Rightarrow> arr_get row gx)"

definition grid_set ::
  "cid option list list \<Rightarrow> int \<Rightarrow> int \<Rightarrow> cid option \<Rightarrow> error + cid option list list" where
  "grid_set g gx gy v =
     (case arr_get g gy of
        Inl e \<Rightarrow> Inl e
      | Inr row \<Rightarrow>
          (case arr_set row gx v of
             Inl e \<Rightarrow> Inl e
           | Inr row' \<Rightarrow> arr_set g gy row'))"

definition in_bounds :: "'r world \<Rightarrow> int \<Rightarrow> int \<Rightarrow> bool" where
  "in_bounds w gx gy \<longleftrightarrow> 0 \<le> gx \<and> gx < width w \<and> 0 \<le> gy \<and> gy < height w"

text \<open>
  Every operation returns the world it leaves behind together with its outcome: the
  returned value, or the exception raised. An exception leaves the world as it was when
  it was raised.
\<close>

definition place_creature :: "'r world \<Rightarrow> cid \<Rightarrow> (error + bool) \<times> 'r world" where
  "place_creature w c =
     (let cr = store w c in
      if in_bounds w (pos_x cr) (pos_y cr) then
        (case grid_get (grid w) (pos_x cr) (pos_y cr) of
           Inl e \<Rightarrow> (Inl e, w)
         | Inr None \<Rightarrow>
             (case grid_set (grid w) (pos_x cr) (pos_y cr) (Some c) of
                Inl e \<Rightarrow> (Inl e, w)
              | Inr g' \<Rightarrow> (Inr True, w\<lparr>grid := g'\<rparr>))
         | Inr (Some other) \<Rightarrow> (Inr False, w))
      else (Inr False, w))"

definition remove_creature :: "'r world \<Rightarrow> cid \<Rightarrow> (error + unit) \<times> 'r world" where
  "remove_creature w c =
     (let cr = store w c in
      if in_bounds w (pos_x cr) (pos_y cr) then
        (case grid_get (grid w) (pos_x cr) (pos_y cr) of
           Inl e \<Rightarrow> (Inl e, w)
         | Inr occupant \<Rightarrow>
             if occupant = Some c then
               (case grid_set (grid w) (pos_x cr) (pos_y cr) None of
                  Inl e \<Rightarrow> (Inl e, w)
                | Inr g' \<Rightarrow> (Inr (), w\<lparr>grid := g'\<rparr>))
             else (Inr (), w))
      else (Inr (), w))"

definition clear :: "'r world \<Rightarrow> 'r world" where
  "clear w = w\<lparr>grid := empty_grid (width w) (height w), creatures := [], murder_count := 0\<rparr>"

definition py_sign :: "int \<Rightarrow> int" where
  "py_sign d = (if d > 0 then 1 else if d < 0 then - 1 else 0)"

text \<open>
  The loop over \<^verbatim>\<open>enumerate(DIRS)\<close> in \<^verbatim>\<open>move_creature\<close>: the index of the first direction
  equal to the sign pair, if there is one.
\<close>

fun find_dir :: "(nat \<times> int \<times> int) list \<Rightarrow> int \<Rightarrow> int \<Rightarrow> int option" where
  "find_dir [] sx sy = None"
| "find_dir ((i, ddx, ddy) # rest) sx sy =
     (if ddx = sx \<and> ddy = sy then Some (int i) else find_dir rest sx sy)"

definition move_creature :: "'r world \<Rightarrow> cid \<Rightarrow> int \<Rightarrow> int \<Rightarrow> (error + bool) \<times> 'r world" where
  "move_creature w c dx dy =
     (let cr = store w c;
          nx = max 0 (min (width w - 1) (pos_x cr + dx));
          ny = max 0 (min (height w - 1) (pos_y cr + dy))
      in if nx = pos_x cr \<and> ny = pos_y cr then (Inr False, w)
         else
           (case grid_get (grid w) nx ny of
              Inl e \<Rightarrow> (Inl e, w)
            | Inr (Some other) \<Rightarrow> (Inr False, w)
            | Inr None \<Rightarrow>
                (case grid_set (grid w) (pos_x cr) (pos_y cr) None of
                   Inl e \<Rightarrow> (Inl e, w)
                 | Inr g1 \<Rightarrow>
                     (let cr1 = cr\<lparr>pos_x := nx, pos_y := ny\<rparr>;
                          w1 = w\<lparr>grid := g1, store := (store w)(c := cr1)\<rparr>
                      in case grid_set g1 nx ny (Some c) of
                           Inl e \<Rightarrow> (Inl e, w1)
                         | Inr g2 \<Rightarrow>
                             (let cr2 =
                                (if dx \<noteq> 0 \<or> dy \<noteq> 0 then
                                   (case find_dir (enumerate 0 DIRS) (py_sign dx) (py_sign dy) of
                                      Some i \<Rightarrow> cr1\<lparr>last_dir := i\<rparr>
                                    | None \<Rightarrow> cr1)
                                 else cr1)
                              in (Inr True, w\<lparr>grid := g2, store := (store w)(c := cr2)\<rparr>))))))"

text \<open>
  \<^verbatim>\<open>kill_creature_at\<close>: an object is always truthy, so \<^verbatim>\<open>victim and victim.alive\<close> is
  \<open>victim is not None and victim.alive\<close>.
\<close>

definition kill_creature_at :: "'r world \<Rightarrow> int \<Rightarrow> int \<Rightarrow> (error + unit) \<times> 'r world" where
  "kill_creature_at w gx gy =
     (if \<not> in_bounds w gx gy then (Inr (), w)
      else
        (case grid_get (grid w) gx gy of
           Inl e \<Rightarrow> (Inl e, w)
         | Inr None \<Rightarrow> (Inr (), w)
         | Inr (Some victim) \<Rightarrow>
             if alive (store w victim) then
               (let w1 = w\<lparr>store := (store w)(victim := (store w victim)\<lparr>alive := False\<rparr>)\<rparr>
                in case grid_set (grid w1) gx gy None of
                     Inl e \<Rightarrow> (Inl e, w1)
                   | Inr g' \<Rightarrow> (Inr (), w1\<lparr>grid := g', murder_count := murder_count w1 + 1\<rparr>))
             else (Inr (), w)))"

definition get_creature :: "'r world \<Rightarrow> int \<Rightarrow> int \<Rightarrow> error + cid option" where
  "get_creature w gx gy =
     (if in_bounds w gx gy then grid_get (grid w) gx gy else Inr None)"

text \<open>A sequence of calls on one world; an exception ends it.\<close>

datatype world_op = Place cid | Move cid int int | Remove cid

fun apply_op :: "'r world \<Rightarrow> world_op \<Rightarrow> error option \<times> 'r world" where
  "apply_op w (Place c) =
     (case place_creature w c of (Inl e, w') \<Rightarrow> (Some e, w') | (Inr b, w') \<Rightarrow> (None, w'))"
| "apply_op w (Move c dx dy) =
     (case move_creature w c dx dy of (Inl e, w') \<Rightarrow> (Some e, w') | (Inr b, w') \<Rightarrow> (None, w'))"
| "apply_op w (Remove c) =
     (case remove_creature w c of (Inl e, w') \<Rightarrow> (Some e, w') | (Inr u, w') \<Rightarrow> (None, w'))"

fun run_ops :: "'r world \<Rightarrow> world_op list \<Rightarrow> error option \<times> 'r world" where
  "run_ops w [] = (None, w)"
| "run_ops w (opn # ops) =
     (case apply_op w opn of
        (Some e, w') \<Rightarrow> (Some e, w')
      | (None, w') \<Rightarrow> run_ops w' ops)"

subsection \<open>The random generator\<close>

text \<open>
  All randomness comes from one numpy \<^verbatim>\<open>Generator\<close>, which the world owns and the
  simulation shares. Its state is a value of an open type \<open>'r\<close>; the methods the core calls
  are the fields of \<open>rng_ops\<close>, each taking the state and returning the drawn value with the
  next state:
  \<^item> \<open>rng_random\<close> is \<^verbatim>\<open>rng.random()\<close>;
  \<^item> \<open>rng_integers low high\<close> is \<^verbatim>\<open>int(rng.integers(low, high))\<close>;
  \<^item> \<open>rng_uint32s n\<close> is \<^verbatim>\<open>rng.integers(0, 2**32, size=n, dtype=np.uint32)\<close>;
  \<^item> \<open>rng_permutation n\<close> is \<^verbatim>\<open>rng.permutation(n)\<close>;
  \<^item> \<open>rng_choice n k\<close> is \<^verbatim>\<open>rng.choice(n, k, replace=False)\<close>.
\<close>

record 'r rng_ops =
  rng_random :: "'r \<Rightarrow> real \<times> 'r"
  rng_integers :: "int \<Rightarrow> int \<Rightarrow> 'r \<Rightarrow> int \<times> 'r"
  rng_uint32s :: "nat \<Rightarrow> 'r \<Rightarrow> int list \<times> 'r"
  rng_permutation :: "nat \<Rightarrow> 'r \<Rightarrow> int list \<times> 'r"
  rng_choice :: "nat \<Rightarrow> nat \<Rightarrow> 'r \<Rightarrow> int list \<times> 'r"

subsection \<open>Genomes of a population (\<^verbatim>\<open>genome.py\<close>)\<close>

text \<open>\<^verbatim>\<open>.astype(np.int32)\<close> on an unsigned 32-bit value, and the same reinterpretation
  written out in \<^verbatim>\<open>mutate_genome\<close>.\<close>

definition to_int32 :: "int \<Rightarrow> int" where
  "to_int32 v = (if v \<ge> 0x80000000 then v - 0x100000000 else v)"

definition random_genome :: "'r rng_ops \<Rightarrow> nat \<Rightarrow> 'r \<Rightarrow> int list \<times> 'r" where
  "random_genome ops size' r =
     (case rng_uint32s ops size' r of (vs, r') \<Rightarrow> (map to_int32 vs, r'))"

text \<open>The \<^verbatim>\<open>for bit in range(32)\<close> loop of \<^verbatim>\<open>mutate_genome\<close> on one gene.\<close>

fun mutate_bits :: "'r rng_ops \<Rightarrow> real \<Rightarrow> nat list \<Rightarrow> int \<Rightarrow> 'r \<Rightarrow> int \<times> 'r" where
  "mutate_bits ops rate [] gene r = (gene, r)"
| "mutate_bits ops rate (b # bs) gene r =
     (case rng_random ops r of
        (u, r') \<Rightarrow>
          mutate_bits ops rate bs (if u < rate then gene XOR push_bit b 1 else gene) r')"

fun mutate_genome :: "'r rng_ops \<Rightarrow> int list \<Rightarrow> real \<Rightarrow> 'r \<Rightarrow> int list \<times> 'r" where
  "mutate_genome ops [] rate r = ([], r)"
| "mutate_genome ops (gene # rest) rate r =
     (case mutate_bits ops rate [0..<32] (gene AND 0xFFFFFFFF) r of
        (gene', r') \<Rightarrow>
          (case mutate_genome ops rest rate r' of
             (mutated, r'') \<Rightarrow> (to_int32 (gene' AND 0xFFFFFFFF) # mutated, r'')))"

text \<open>The slices \<^verbatim>\<open>xs[:k]\<close> and \<^verbatim>\<open>xs[k:]\<close>; a negative \<open>k\<close> counts from the end.\<close>

definition slice_index :: "'a list \<Rightarrow> int \<Rightarrow> nat" where
  "slice_index xs k = (if k < 0 then nat (int (length xs) + k) else nat k)"

definition py_prefix :: "'a list \<Rightarrow> int \<Rightarrow> 'a list" where
  "py_prefix xs k = take (slice_index xs k) xs"

definition py_suffix :: "'a list \<Rightarrow> int \<Rightarrow> 'a list" where
  "py_suffix xs k = drop (slice_index xs k) xs"

definition crossover :: "'r rng_ops \<Rightarrow> int list \<Rightarrow> int list \<Rightarrow> 'r \<Rightarrow> int list \<times> 'r" where
  "crossover ops genome_a genome_b r =
     (case rng_integers ops 0 (int (length genome_a) + 1) r of
        (split, r') \<Rightarrow> (py_prefix genome_a split @ py_suffix genome_b split, r'))"

subsection \<open>Sensing helpers of the world (\<^verbatim>\<open>world.py\<close>)\<close>

text \<open>
  The cells a sensor looks at, in loop order; a cell counts when it is in bounds and holds a
  creature.
\<close>

fun count_occupied :: "'r world \<Rightarrow> (int \<times> int) list \<Rightarrow> int \<Rightarrow> error + int" where
  "count_occupied w [] count = Inr count"
| "count_occupied w ((gx, gy) # cells) count =
     (if in_bounds w gx gy then
        (case grid_get (grid w) gx gy of
           Inl e \<Rightarrow> Inl e
         | Inr None \<Rightarrow> count_occupied w cells count
         | Inr (Some other) \<Rightarrow> count_occupied w cells (count + 1))
      else count_occupied w cells count)"

definition local_density :: "'r world \<Rightarrow> int \<Rightarrow> int \<Rightarrow> int \<Rightarrow> error + int" where
  "local_density w cx cy radius =
     count_occupied w
       (concat (map (\<lambda>dy. concat (map (\<lambda>dx. if dx = 0 \<and> dy = 0 then [] else [(cx + dx, cy + dy)])
                                      [- radius..radius]))
                    [- radius..radius]))
       0"

definition forward_density_gradient :: "'r world \<Rightarrow> int \<Rightarrow> int \<Rightarrow> int \<Rightarrow> error + real" where
  "forward_density_gradient w cx cy dir_idx =
     (case arr_get DIRS dir_idx of
        Inl e \<Rightarrow> Inl e
      | Inr (dx, dy) \<Rightarrow>
          (case count_occupied w (map (\<lambda>step. (cx + dx * step, cy + dy * step)) [1..5]) 0 of
             Inl e \<Rightarrow> Inl e
           | Inr fwd \<Rightarrow>
               (case count_occupied w (map (\<lambda>step. (cx - dx * step, cy - dy * step)) [1..5]) 0 of
                  Inl e \<Rightarrow> Inl e
                | Inr bwd \<Rightarrow> Inr (real_of_int (fwd - bwd) / 5))))"

definition genetic_sim_to :: "'r world \<Rightarrow> cid \<Rightarrow> cid option \<Rightarrow> real" where
  "genetic_sim_to w c other =
     (case other of
        None \<Rightarrow> 0
      | Some c' \<Rightarrow> genome_similarity (genome (store w c)) (genome (store w c')))"

subsection \<open>One step of a creature (\<^verbatim>\<open>creature.py\<close>)\<close>

definition STEPS_PER_GEN :: int where "STEPS_PER_GEN = 300"
definition KILL_ENABLED :: bool where "KILL_ENABLED = False"

text \<open>\<^verbatim>\<open>Creature.__init__\<close> with a genome given, as the simulation calls it.\<close>

definition Creature_init :: "int \<Rightarrow> int \<Rightarrow> int list \<Rightarrow> creature" where
  "Creature_init px py g =
     \<lparr>pos_x = px, pos_y = py, genome = g, brain = brain_connections g, alive = True, age = 0,
      last_dir = 0, radiation_dose = 0, osc_phase = 0\<rparr>"

text \<open>True division \<^verbatim>\<open>a / b\<close>, which raises on a zero divisor.\<close>

definition py_div :: "real \<Rightarrow> real \<Rightarrow> error + real" where
  "py_div a b = (if b = 0 then Inl ZeroDivisionError else Inr (a / b))"

text \<open>\<^verbatim>\<open>Creature._sense\<close>: the sensor vector, in the order the entries are computed.\<close>

definition sense :: "'r rng_ops \<Rightarrow> 'r world \<Rightarrow> cid \<Rightarrow> (error + real list) \<times> 'r world" where
  "sense ops w c =
     (let me = store w c; W = width w; H = height w in
      case py_div (real_of_int (pos_x me)) (real_of_int (W - 1)) of
        Inl e \<Rightarrow> (Inl e, w)
      | Inr loc_x \<Rightarrow>
      (case py_div (real_of_int (pos_y me)) (real_of_int (H - 1)) of
        Inl e \<Rightarrow> (Inl e, w)
      | Inr loc_y \<Rightarrow>
      (let age_frac = real_of_int (age me) / real_of_int (max 1 (STEPS_PER_GEN - 1));
           (noise, r') = rng_random ops (rng w);
           phase = osc_phase me + 2 * pi / 30;
           w' = w\<lparr>rng := r', store := (store w)(c := me\<lparr>osc_phase := phase\<rparr>)\<rparr>;
           oscillator = (sin phase + 1) * (1 / 2)
       in
       case py_div (real_of_int (min (pos_x me) (W - 1 - pos_x me))) (real_of_int W / 2) of
         Inl e \<Rightarrow> (Inl e, w')
       | Inr qx \<Rightarrow>
       (case py_div (real_of_int (min (pos_y me) (H - 1 - pos_y me))) (real_of_int H / 2) of
         Inl e \<Rightarrow> (Inl e, w')
       | Inr qy \<Rightarrow>
       (case local_density w' (pos_x me) (pos_y me) 2 of
         Inl e \<Rightarrow> (Inl e, w')
       | Inr neighbours \<Rightarrow>
       (case forward_density_gradient w' (pos_x me) (pos_y me) (last_dir me) of
         Inl e \<Rightarrow> (Inl e, w')
       | Inr gradient \<Rightarrow>
       (case arr_get DIRS (last_dir me) of
         Inl e \<Rightarrow> (Inl e, w')
       | Inr (dx, dy) \<Rightarrow>
       (case get_creature w' (pos_x me + dx) (pos_y me + dy) of
         Inl e \<Rightarrow> (Inl e, w')
       | Inr ahead \<Rightarrow>
           (Inr [loc_x, loc_y, age_frac, noise, oscillator, 1 - qx, 1 - qy,
                 min 1 (real_of_int neighbours / 8), gradient, genetic_sim_to w' c ahead,
                 real_of_int (dx + 1) / 2, real_of_int (dy + 1) / 2,
                 (if ahead \<noteq> None then 1 else 0), 1],
            w')))))))))"

text \<open>Dropping the value a call returns, as a statement does.\<close>

definition discard :: "(error + 'a) \<times> 's \<Rightarrow> (error + unit) \<times> 's" where
  "discard res = (case res of (Inl e, s) \<Rightarrow> (Inl e, s) | (Inr v, s) \<Rightarrow> (Inr (), s))"

text \<open>
  The tail shared by the actions 3 to 6: look up the current heading in \<^verbatim>\<open>DIRS\<close> and move
  one cell that way. \<open>turn\<close> is the assignment \<^verbatim>\<open>self.last_dir = (self.last_dir + k) % 8\<close>
  that the actions 4, 5 and 6 make first.
\<close>

definition move_forward :: "'r world \<Rightarrow> cid \<Rightarrow> (error + unit) \<times> 'r world" where
  "move_forward w c =
     (case arr_get DIRS (last_dir (store w c)) of
        Inl e \<Rightarrow> (Inl e, w)
      | Inr (dx, dy) \<Rightarrow> discard (move_creature w c dx dy))"

definition turn :: "'r world \<Rightarrow> cid \<Rightarrow> int \<Rightarrow> 'r world" where
  "turn w c k =
     w\<lparr>store := (store w)(c := (store w c)\<lparr>last_dir := (last_dir (store w c) + k) mod 8\<rparr>)\<rparr>"

text \<open>\<^verbatim>\<open>Creature._execute_action\<close>.\<close>

definition execute_action ::
  "'r rng_ops \<Rightarrow> 'r world \<Rightarrow> cid \<Rightarrow> nat \<Rightarrow> real \<Rightarrow> (error + unit) \<times> 'r world" where
  "execute_action ops w c action_id strength =
     (if action_id = 0 then discard (move_creature w c (if strength > 0 then 1 else - 1) 0)
      else if action_id = 1 then discard (move_creature w c 0 (if strength > 0 then 1 else - 1))
      else if action_id = 2 then
        (case rng_integers ops 0 8 (rng w) of
           (d, r') \<Rightarrow>
             (case arr_get DIRS d of
                Inl e \<Rightarrow> (Inl e, w\<lparr>rng := r'\<rparr>)
              | Inr (dx, dy) \<Rightarrow>
                  (case move_creature (w\<lparr>rng := r'\<rparr>) c dx dy of
                     (Inl e, w') \<Rightarrow> (Inl e, w')
                   | (Inr moved, w') \<Rightarrow>
                       (Inr (),
                        if moved then w'\<lparr>store := (store w')(c := (store w' c)\<lparr>last_dir := d\<rparr>)\<rparr>
                        else w'))))
      else if action_id = 3 then move_forward w c
      else if action_id = 4 then move_forward (turn w c (- 1)) c
      else if action_id = 5 then move_forward (turn w c 1) c
      else if action_id = 6 then move_forward (turn w c 4) c
      else if action_id = 7 then
        (if KILL_ENABLED then
           (case arr_get DIRS (last_dir (store w c)) of
              Inl e \<Rightarrow> (Inl e, w)
            | Inr (dx, dy) \<Rightarrow>
                kill_creature_at w (pos_x (store w c) + dx) (pos_y (store w c) + dy))
         else (Inr (), w))
      else (Inr (), w))"

text \<open>
  The end of \<^verbatim>\<open>Creature.step\<close>: the choice among the activations and, if there is one, its
  execution with the chosen activation as strength.
\<close>

definition act_on :: "'r rng_ops \<Rightarrow> 'r world \<Rightarrow> cid \<Rightarrow> real list \<Rightarrow> (error + unit) \<times> 'r world" where
  "act_on ops w c actions =
     (case choose_action actions of
        None \<Rightarrow> (Inr (), w)
      | Some best_act \<Rightarrow> execute_action ops w c best_act (actions ! best_act))"

text \<open>
  \<^verbatim>\<open>Creature.step\<close>. Its parameter \<^verbatim>\<open>sim_step\<close> is passed on to \<^verbatim>\<open>_sense\<close> and read by
  neither, so it is left out.
\<close>

definition step :: "'r rng_ops \<Rightarrow> 'r world \<Rightarrow> cid \<Rightarrow> (error + unit) \<times> 'r world" where
  "step ops w c =
     (if \<not> alive (store w c) then (Inr (), w)
      else
        (let w1 = w\<lparr>store := (store w)(c := (store w c)\<lparr>age := age (store w c) + 1\<rparr>)\<rparr> in
         case sense ops w1 c of
           (Inl e, w2) \<Rightarrow> (Inl e, w2)
         | (Inr inputs, w2) \<Rightarrow>
             (case forward (brain (store w2 c)) inputs of
                Inl e \<Rightarrow> (Inl e, w2)
              | Inr actions \<Rightarrow> act_on ops w2 c actions)))"

subsection \<open>The generation loop (\<^verbatim>\<open>simulation.py\<close>)\<close>

definition CENTER_RADIUS :: int where "CENTER_RADIUS = 20"
definition STRIP_WIDTH :: int where "STRIP_WIDTH = 32"
definition CORNER_SIZE :: int where "CORNER_SIZE = 32"
definition RADIO_MAX_DOSE :: real where "RADIO_MAX_DOSE = 1"
definition RADIO_FALLOFF :: real where "RADIO_FALLOFF = 4 / 100"

text \<open>The dictionary built by \<^verbatim>\<open>_compute_stats\<close>, with the key \<^verbatim>\<open>elapsed_s\<close> added by the loop.\<close>

record gen_stats =
  st_generation :: nat
  st_population :: nat
  st_survivors :: nat
  st_alive :: nat
  st_survival_pct :: real
  st_murdered :: int
  st_diversity :: real
  st_elapsed_s :: real

text \<open>
  A \<^verbatim>\<open>Simulation\<close> object. Its \<^verbatim>\<open>rng\<close> is the world's generator (the same object), so the
  only generator state is \<open>rng (world s)\<close>. The counts are natural numbers. Both callbacks
  are \<^verbatim>\<open>None\<close>, their default.
\<close>

record 'r simulation =
  population :: nat
  max_generations :: nat
  steps_per_gen :: nat
  genome_size :: nat
  mutation_rate :: real
  selection_mode :: string
  world :: "'r world"
  generation :: nat
  stats :: "gen_stats list"
  current_gen_creatures :: "cid list"

text \<open>
  \<^verbatim>\<open>Simulation.__init__\<close>; \<open>r\<close> is the generator state that \<^verbatim>\<open>default_rng(seed)\<close> starts
  from. No creature object exists yet.
\<close>

definition Simulation_init ::
  "nat \<Rightarrow> nat \<Rightarrow> nat \<Rightarrow> nat \<Rightarrow> real \<Rightarrow> string \<Rightarrow> int \<Rightarrow> int \<Rightarrow> 'r \<Rightarrow> 'r simulation" where
  "Simulation_init pop max_gens steps gsize rate mode world_width world_height r =
     \<lparr>population = pop, max_generations = max_gens, steps_per_gen = steps, genome_size = gsize,
      mutation_rate = rate, selection_mode = mode,
      world = World_init world_width world_height r (\<lambda>c. Creature_init 0 0 []),
      generation = 0, stats = [], current_gen_creatures = []\<rparr>"

text \<open>\<^verbatim>\<open>[xs[i] for i in idx]\<close>.\<close>

fun gather :: "'a list \<Rightarrow> int list \<Rightarrow> error + 'a list" where
  "gather xs [] = Inr []"
| "gather xs (i # idx) =
     (case arr_get xs i of
        Inl e \<Rightarrow> Inl e
      | Inr v \<Rightarrow> (case gather xs idx of Inl e \<Rightarrow> Inl e | Inr vs \<Rightarrow> Inr (v # vs)))"

text \<open>
  The placing loop of \<^verbatim>\<open>World.populate\<close>. The first list holds the positions from index
  \<open>placed\<close> on, so the loop breaks when it is empty.
\<close>

fun populate_loop ::
  "'r world \<Rightarrow> (int \<times> int) list \<Rightarrow> cid list \<Rightarrow> nat \<Rightarrow> (error + nat) \<times> 'r world" where
  "populate_loop w positions [] placed = (Inr placed, w)"
| "populate_loop w [] (c # cs) placed = (Inr placed, w)"
| "populate_loop w ((px, py) # positions) (c # cs) placed =
     (let w1 = w\<lparr>store := (store w)(c := (store w c)\<lparr>pos_x := px, pos_y := py\<rparr>)\<rparr> in
      case grid_set (grid w1) px py (Some c) of
        Inl e \<Rightarrow> (Inl e, w1)
      | Inr g' \<Rightarrow> populate_loop (w1\<lparr>grid := g'\<rparr>) positions cs (Suc placed))"

definition populate :: "'r rng_ops \<Rightarrow> 'r world \<Rightarrow> cid list \<Rightarrow> (error + unit) \<times> 'r world" where
  "populate ops w cs =
     (let w1 = clear w;
          positions = concat (map (\<lambda>gy. map (\<lambda>gx. (gx, gy)) [0..width w1 - 1]) [0..height w1 - 1]);
          (perm, r') = rng_permutation ops (length positions) (rng w1);
          w2 = w1\<lparr>rng := r'\<rparr>
      in case gather positions perm of
           Inl e \<Rightarrow> (Inl e, w2)
         | Inr positions' \<Rightarrow>
             (case populate_loop w2 positions' cs 0 of
                (Inl e, w3) \<Rightarrow> (Inl e, w3)
              | (Inr placed, w3) \<Rightarrow> (Inr (), w3\<lparr>creatures := take placed cs\<rparr>)))"

text \<open>\<^verbatim>\<open>Simulation._apply_radiation\<close>.\<close>

fun apply_radiation :: "'r world \<Rightarrow> bool \<Rightarrow> cid list \<Rightarrow> (error + unit) \<times> 'r world" where
  "apply_radiation w west_active [] = (Inr (), w)"
| "apply_radiation w west_active (c # cs) =
     (if \<not> alive (store w c) then apply_radiation w west_active cs
      else
        (let me = store w c;
             dist = (if west_active then pos_x me else width w - 1 - pos_x me);
             dose_per_step = exp (- RADIO_FALLOFF * real_of_int dist) * (1 / 100);
             me1 = me\<lparr>radiation_dose := radiation_dose me + dose_per_step\<rparr>;
             w1 = w\<lparr>store := (store w)(c := me1)\<rparr>
         in if radiation_dose me1 > RADIO_MAX_DOSE then
              (case remove_creature (w1\<lparr>store := (store w1)(c := me1\<lparr>alive := False\<rparr>)\<rparr>) c of
                 (Inl e, w2) \<Rightarrow> (Inl e, w2)
               | (Inr u, w2) \<Rightarrow> apply_radiation w2 west_active cs)
            else apply_radiation w1 west_active cs))"

text \<open>The \<^verbatim>\<open>for idx in order\<close> loop of one simulator step.\<close>

fun step_all :: "'r rng_ops \<Rightarrow> 'r world \<Rightarrow> cid list \<Rightarrow> int list \<Rightarrow> (error + unit) \<times> 'r world" where
  "step_all ops w cs [] = (Inr (), w)"
| "step_all ops w cs (idx # order) =
     (case arr_get cs idx of
        Inl e \<Rightarrow> (Inl e, w)
      | Inr c \<Rightarrow>
          if alive (store w c) then
            (case step ops w c of
               (Inl e, w') \<Rightarrow> (Inl e, w')
             | (Inr u, w') \<Rightarrow> step_all ops w' cs order)
          else step_all ops w cs order)"

text \<open>The \<^verbatim>\<open>for step in range(self.steps_per_gen)\<close> loop, over the steps still to run.\<close>

fun run_steps ::
  "'r rng_ops \<Rightarrow> string \<Rightarrow> nat \<Rightarrow> 'r world \<Rightarrow> cid list \<Rightarrow> nat list \<Rightarrow> (error + unit) \<times> 'r world" where
  "run_steps ops mode steps w cs [] = (Inr (), w)"
| "run_steps ops mode steps w cs (sim_step # later) =
     (case (if mode = ''radioactive''
            then apply_radiation w (sim_step < steps div 2) cs else (Inr (), w)) of
        (Inl e, w1) \<Rightarrow> (Inl e, w1)
      | (Inr u, w1) \<Rightarrow>
          (case rng_permutation ops (length cs) (rng w1) of
             (order, r') \<Rightarrow>
               (case step_all ops (w1\<lparr>rng := r'\<rparr>) cs order of
                  (Inl e, w2) \<Rightarrow> (Inl e, w2)
                | (Inr u', w2) \<Rightarrow> run_steps ops mode steps w2 cs later)))"

text \<open>The survival test of \<^verbatim>\<open>Simulation._select\<close> for one live creature.\<close>

definition selected :: "string \<Rightarrow> int \<Rightarrow> int \<Rightarrow> creature \<Rightarrow> bool" where
  "selected mode W H me =
     (if mode = ''east'' then pos_x me \<ge> W div 2
      else if mode = ''west'' then pos_x me < W div 2
      else if mode = ''west_east'' then pos_x me < STRIP_WIDTH \<or> pos_x me \<ge> W - STRIP_WIDTH
      else if mode = ''corners'' then
        (pos_x me < CORNER_SIZE \<or> pos_x me \<ge> W - CORNER_SIZE)
        \<and> (pos_y me < CORNER_SIZE \<or> pos_y me \<ge> H - CORNER_SIZE)
      else if mode = ''center'' then
        (pos_x me - W div 2)\<^sup>2 + (pos_y me - H div 2)\<^sup>2 \<le> CENTER_RADIUS\<^sup>2
      else True)"

definition select :: "string \<Rightarrow> 'r world \<Rightarrow> cid list \<Rightarrow> cid list" where
  "select mode w cs =
     filter (\<lambda>c. alive (store w c) \<and> selected mode (width w) (height w) (store w c)) cs"

text \<open>The double loop of \<^verbatim>\<open>_genetic_diversity\<close> over the pairs \<open>i < j\<close>, on \<open>(total, count)\<close>, here \<open>(acc, count)\<close>.\<close>

fun diversity_loop :: "(int list \<times> int list) list \<Rightarrow> real \<times> nat \<Rightarrow> real \<times> nat" where
  "diversity_loop [] (acc, count) = (acc, count)"
| "diversity_loop ((ga, gb) # pairs) (acc, count) =
     diversity_loop pairs (acc + (1 - genome_similarity ga gb), Suc count)"

definition genetic_diversity ::
  "'r rng_ops \<Rightarrow> 'r world \<Rightarrow> cid list \<Rightarrow> (error + real) \<times> 'r world" where
  "genetic_diversity ops w cs =
     (if length cs < 2 then (Inr 0, w)
      else
        (case rng_choice ops (length cs) (min 50 (length cs)) (rng w) of
           (idx, r') \<Rightarrow>
             (case gather cs idx of
                Inl e \<Rightarrow> (Inl e, w\<lparr>rng := r'\<rparr>)
              | Inr sampled \<Rightarrow>
                  (case diversity_loop
                          (concat (map (\<lambda>i. map (\<lambda>j. (genome (store w (sampled ! i)),
                                                      genome (store w (sampled ! j))))
                                              [Suc i..<length sampled])
                                       [0..<length sampled]))
                          (0, 0) of
                     (acc, count) \<Rightarrow>
                       (Inr (if count \<noteq> 0 then acc / real count else 0), w\<lparr>rng := r'\<rparr>)))))"

text \<open>\<^verbatim>\<open>Simulation._compute_stats\<close>; the elapsed time is filled in by the caller.\<close>

definition compute_stats ::
  "'r rng_ops \<Rightarrow> nat \<Rightarrow> 'r world \<Rightarrow> cid list \<Rightarrow> cid list \<Rightarrow> (error + gen_stats) \<times> 'r world" where
  "compute_stats ops gen w cs survivors =
     (case genetic_diversity ops w survivors of
        (Inl e, w') \<Rightarrow> (Inl e, w')
      | (Inr diversity, w') \<Rightarrow>
          (Inr \<lparr>st_generation = gen, st_population = length cs,
                st_survivors = length survivors,
                st_alive = length (filter (\<lambda>c. alive (store w c)) cs),
                st_survival_pct = 100 * real (length survivors) / real (max 1 (length cs)),
                st_murdered = murder_count w, st_diversity = diversity, st_elapsed_s = 0\<rparr>,
           w'))"

text \<open>
  \<^verbatim>\<open>Simulation._run_one_generation\<close>. The new creature objects are the references
  \<open>0, 1, \<dots>\<close>, one per genome; the objects of the generation before are no longer
  referred to by the grid or by either creature list.
\<close>

definition run_one_generation ::
  "'r rng_ops \<Rightarrow> 'r simulation \<Rightarrow> int list list
     \<Rightarrow> (error + cid list \<times> gen_stats) \<times> 'r simulation" where
  "run_one_generation ops s genomes =
     (let cs = [0..<length genomes];
          w0 = (world s)\<lparr>store := (\<lambda>c. if c < length genomes then Creature_init 0 0 (genomes ! c)
                                        else store (world s) c)\<rparr>;
          s0 = s\<lparr>current_gen_creatures := cs\<rparr>
      in case populate ops w0 cs of
           (Inl e, w1) \<Rightarrow> (Inl e, s0\<lparr>world := w1\<rparr>)
         | (Inr u, w1) \<Rightarrow>
             (case run_steps ops (selection_mode s) (steps_per_gen s) (w1\<lparr>murder_count := 0\<rparr>) cs
                     [0..<steps_per_gen s] of
                (Inl e, w2) \<Rightarrow> (Inl e, s0\<lparr>world := w2\<rparr>)
              | (Inr u', w2) \<Rightarrow>
                  (let survivors = select (selection_mode s) w2 cs in
                   case compute_stats ops (generation s) w2 cs survivors of
                     (Inl e, w3) \<Rightarrow> (Inl e, s0\<lparr>world := w3\<rparr>)
                   | (Inr st, w3) \<Rightarrow> (Inr (survivors, st), s0\<lparr>world := w3\<rparr>))))"

text \<open>The list comprehension of the extinction branch of \<^verbatim>\<open>_reproduce\<close>, and of \<^verbatim>\<open>run\<close>.\<close>

fun random_genomes :: "'r rng_ops \<Rightarrow> nat \<Rightarrow> nat \<Rightarrow> 'r \<Rightarrow> int list list \<times> 'r" where
  "random_genomes ops gsize 0 r = ([], r)"
| "random_genomes ops gsize (Suc n) r =
     (case random_genome ops gsize r of
        (g, r') \<Rightarrow> (case random_genomes ops gsize n r' of (gs, r'') \<Rightarrow> (g # gs, r'')))"

text \<open>
  The \<^verbatim>\<open>while len(new_genomes) < self.population\<close> loop of \<^verbatim>\<open>_reproduce\<close>; every round
  appends one child, so \<open>n\<close> counts the rounds left.
\<close>

fun breed ::
  "'r rng_ops \<Rightarrow> real \<Rightarrow> (cid \<Rightarrow> creature) \<Rightarrow> cid list \<Rightarrow> nat \<Rightarrow> 'r \<Rightarrow> (error + int list list) \<times> 'r" where
  "breed ops rate objs survivors 0 r = (Inr [], r)"
| "breed ops rate objs survivors (Suc n) r =
     (case rng_integers ops 0 (int (length survivors)) r of
        (ia, r1) \<Rightarrow>
          (case arr_get survivors ia of
             Inl e \<Rightarrow> (Inl e, r1)
           | Inr pa \<Rightarrow>
               (case rng_integers ops 0 (int (length survivors)) r1 of
                  (ib, r2) \<Rightarrow>
                    (case arr_get survivors ib of
                       Inl e \<Rightarrow> (Inl e, r2)
                     | Inr pb \<Rightarrow>
                         (case crossover ops (genome (objs pa)) (genome (objs pb)) r2 of
                            (child, r3) \<Rightarrow>
                              (case mutate_genome ops child rate r3 of
                                 (child', r4) \<Rightarrow>
                                   (case breed ops rate objs survivors n r4 of
                                      (Inl e, r5) \<Rightarrow> (Inl e, r5)
                                    | (Inr children, r5) \<Rightarrow> (Inr (child' # children), r5))))))))"

text \<open>\<^verbatim>\<open>Simulation._reproduce\<close>.\<close>

definition reproduce ::
  "'r rng_ops \<Rightarrow> 'r simulation \<Rightarrow> cid list \<Rightarrow> (error + int list list) \<times> 'r simulation" where
  "reproduce ops s survivors =
     (if survivors = [] then
        (case random_genomes ops (genome_size s) (population s) (rng (world s)) of
           (gs, r') \<Rightarrow> (Inr gs, s\<lparr>world := (world s)\<lparr>rng := r'\<rparr>\<rparr>))
      else
        (case breed ops (mutation_rate s) (store (world s)) survivors (population s)
                (rng (world s)) of
           (Inl e, r') \<Rightarrow> (Inl e, s\<lparr>world := (world s)\<lparr>rng := r'\<rparr>\<rparr>)
         | (Inr new_genomes, r') \<Rightarrow>
             (Inr (take (population s) new_genomes), s\<lparr>world := (world s)\<lparr>rng := r'\<rparr>\<rparr>)))"

text \<open>
  \<^verbatim>\<open>Simulation._run_all_generations\<close>, over the generation indices still to run.
  \<open>clock gen_idx\<close> is the rounded wall-clock time measured around generation \<open>gen_idx\<close>:
  an input of the model, since it is not determined by the program.
\<close>

fun run_generations ::
  "'r rng_ops \<Rightarrow> (nat \<Rightarrow> real) \<Rightarrow> 'r simulation \<Rightarrow> int list list \<Rightarrow> nat list
     \<Rightarrow> (error + unit) \<times> 'r simulation" where
  "run_generations ops clock s genomes [] = (Inr (), s)"
| "run_generations ops clock s genomes (gen_idx # later) =
     (case run_one_generation ops (s\<lparr>generation := gen_idx\<rparr>) genomes of
        (Inl e, s1) \<Rightarrow> (Inl e, s1)
      | (Inr (survivors, st), s1) \<Rightarrow>
          (let s2 = s1\<lparr>stats := stats s1 @ [st\<lparr>st_elapsed_s := clock gen_idx\<rparr>]\<rparr> in
           if survivors = [] then (Inr (), s2)
           else
             (case reproduce ops s2 survivors of
                (Inl e, s3) \<Rightarrow> (Inl e, s3)
              | (Inr genomes', s3) \<Rightarrow> run_generations ops clock s3 genomes' later)))"

definition run_all_generations ::
  "'r rng_ops \<Rightarrow> (nat \<Rightarrow> real) \<Rightarrow> 'r simulation \<Rightarrow> int list list
     \<Rightarrow> (error + unit) \<times> 'r simulation" where
  "run_all_generations ops clock s initial_genomes =
     run_generations ops clock s initial_genomes [0..<max_generations s]"

text \<open>\<^verbatim>\<open>Simulation.run\<close>.\<close>

definition run :: "'r rng_ops \<Rightarrow> (nat \<Rightarrow> real) \<Rightarrow> 'r simulation \<Rightarrow> (error + unit) \<times> 'r simulation" where
  "run ops clock s =
     (case random_genomes ops (genome_size s) (population s) (rng (world s)) of
        (genomes, r') \<Rightarrow>
          run_all_generations ops clock (s\<lparr>world := (world s)\<lparr>rng := r'\<rparr>\<rparr>) genomes)"

subsection \<open>Notions used in the statements and proofs\<close>

text \<open>A connection whose kinds are bits and whose ids index their pools.\<close>

definition conn_in_range :: "conn \<Rightarrow> bool" where
  "conn_in_range c \<longleftrightarrow>
     (source_type c = 0 \<or> source_type c = 1) \<and> (sink_type c = 0 \<or> sink_type c = 1)
     \<and> 0 \<le> source_id c
     \<and> source_id c < (if source_type c = 0 then NUM_SENSORS else MAX_INTERNAL_NEURONS)
     \<and> 0 \<le> sink_id c
     \<and> sink_id c < (if sink_type c = 1 then NUM_ACTIONS else MAX_INTERNAL_NEURONS)"

text \<open>The value a connection reads, and what the connections into one sink add up to.\<close>

definition source_value :: "real list \<Rightarrow> real list \<Rightarrow> conn \<Rightarrow> real" where
  "source_value sensor_inputs internal_vals c =
     (if source_type c = 0 then sensor_inputs ! nat (source_id c)
      else internal_vals ! nat (source_id c))"

definition contribution :: "int \<Rightarrow> conn list \<Rightarrow> real list \<Rightarrow> real list \<Rightarrow> nat \<Rightarrow> real" where
  "contribution wanted cs sensor_inputs internal_vals k =
     (\<Sum>c\<leftarrow>filter (\<lambda>c. sink_type c = wanted \<and> sink_id c = int k) cs.
        source_value sensor_inputs internal_vals c * weight c)"

text \<open>One round of the internal loop and the final action round, as closed forms.\<close>

definition internal_round :: "conn list \<Rightarrow> real list \<Rightarrow> real list \<Rightarrow> real list" where
  "internal_round cs sensor_inputs internal_vals =
     map tanh (map (contribution 0 cs sensor_inputs internal_vals) [0..<nat MAX_INTERNAL_NEURONS])"

definition action_round :: "conn list \<Rightarrow> real list \<Rightarrow> real list \<Rightarrow> real list" where
  "action_round cs sensor_inputs internal_vals =
     map tanh (map (contribution 1 cs sensor_inputs internal_vals) [0..<nat NUM_ACTIONS])"

text \<open>
  The grid has \<open>height\<close> rows of \<open>width\<close> cells, and every cell that holds a reference holds
  one to a creature whose stored position is that cell.
\<close>

definition grid_shape :: "'r world \<Rightarrow> bool" where
  "grid_shape w \<longleftrightarrow>
     length (grid w) = nat (height w) \<and> list_all (\<lambda>row. length row = nat (width w)) (grid w)"

definition cell_matches :: "'r world \<Rightarrow> nat \<Rightarrow> nat \<Rightarrow> cid option \<Rightarrow> bool" where
  "cell_matches w a b cell =
     (case cell of
        None \<Rightarrow> True
      | Some c \<Rightarrow> pos_x (store w c) = int b \<and> pos_y (store w c) = int a)"

definition grid_refs_match :: "'r world \<Rightarrow> bool" where
  "grid_refs_match w \<longleftrightarrow>
     list_all (\<lambda>(a, row). list_all (\<lambda>(b, cell). cell_matches w a b cell) (enumerate 0 row))
       (enumerate 0 (grid w))"

definition world_ok :: "'r world \<Rightarrow> bool" where
  "world_ok w \<longleftrightarrow> grid_shape w \<and> grid_refs_match w"

text \<open>The boundary-clamped target cell \<open>(nx, ny)\<close> that \<^const>\<open>move_creature\<close> computes.\<close>

definition clamped_target :: "'r world \<Rightarrow> cid \<Rightarrow> int \<Rightarrow> int \<Rightarrow> int \<times> int" where
  "clamped_target w c dx dy =
     (max 0 (min (width w - 1) (pos_x (store w c) + dx)),
      max 0 (min (height w - 1) (pos_y (store w c) + dy)))"

text \<open>A small world for concrete runs: every object starts at \<open>(0, 0)\<close> with an empty genome.\<close>

definition fresh_creature :: creature where
  "fresh_creature =
     \<lparr>pos_x = 0, pos_y = 0, genome = [], brain = [], alive = True, age = 0, last_dir = 0,
      radiation_dose = 0, osc_phase = 0\<rparr>"

definition demo_world :: "unit world" where
  "demo_world = World_init 2 2 () (\<lambda>c. fresh_creature)"


text \<open>The demo world after \<open>Place 0\<close>: creature \<open>0\<close> sits in the cell \<open>(0, 0)\<close>.\<close>

definition demo_placed :: "unit world" where
  "demo_placed = demo_world\<lparr>grid := [[Some 0, None], [None, None]]\<rparr>"

text \<open>
  A generator for concrete runs: it ignores its state and returns the least value every
  time (zeros, the identity permutation, the first \<open>k\<close> indices).
\<close>

definition demo_rng :: "unit rng_ops" where
  "demo_rng =
     \<lparr>rng_random = (\<lambda>r. (0, r)),
      rng_integers = (\<lambda>low high r. (low, r)),
      rng_uint32s = (\<lambda>n r. (replicate n 0, r)),
      rng_permutation = (\<lambda>n r. (map int [0..<n], r)),
      rng_choice = (\<lambda>n k r. (map int [0..<k], r))\<rparr>"

text \<open>
  One creature with an empty genome on a 2 by 2 grid, selection mode \<^verbatim>\<open>"east"\<close>, three
  generations of one step each.
\<close>

definition demo_sim :: "unit simulation" where
  "demo_sim = Simulation_init 1 3 1 0 0 ''east'' 2 2 ()"

text \<open>The statistics of the only generation the demo run completes.\<close>

definition demo_stats :: gen_stats where
  "demo_stats =
     \<lparr>st_generation = 0, st_population = 1, st_survivors = 0, st_alive = 1,
      st_survival_pct = 0, st_murdered = 0, st_diversity = 0, st_elapsed_s = 0\<rparr>"

subsection \<open>Properties of the gene codec\<close>

lemma and_1_take_bit: "(v::int) AND 1 = take_bit 1 v"
  by (simp add: take_bit_eq_mask mask_eq_exp_minus_1)

lemma and_127_take_bit: "(v::int) AND 127 = take_bit 7 v"
  by (simp add: take_bit_eq_mask mask_eq_exp_minus_1)

lemma and_65535_take_bit: "(v::int) AND 65535 = take_bit 16 v"
  by (simp add: take_bit_eq_mask mask_eq_exp_minus_1)

lemma pack_source_type: "take_bit 1 (drop_bit 31 (pack a b c d w)) = take_bit 1 a"
  unfolding pack_def
  by (rule bit_eqI) (auto simp add: bit_simps simp del: take_bit_Suc_0 One_nat_def)

lemma pack_source_id: "take_bit 7 (drop_bit 24 (pack a b c d w)) = take_bit 7 b"
  unfolding pack_def
  by (rule bit_eqI) (auto simp add: bit_simps)

lemma pack_sink_type: "take_bit 1 (drop_bit 23 (pack a b c d w)) = take_bit 1 c"
  unfolding pack_def
  by (rule bit_eqI) (auto simp add: bit_simps simp del: take_bit_Suc_0 One_nat_def)

lemma pack_sink_id: "take_bit 7 (drop_bit 16 (pack a b c d w)) = take_bit 7 d"
  unfolding pack_def
  by (rule bit_eqI) (auto simp add: bit_simps)

lemma pack_weight: "take_bit 16 (pack a b c d w) = take_bit 16 w"
  unfolding pack_def
  by (rule bit_eqI) (auto simp add: bit_simps)

lemma take_bit_1_mod: "take_bit 1 (v::int) = v mod 2" by (simp add: take_bit_eq_mod)
lemma take_bit_7_mod: "take_bit 7 (v::int) = v mod 128" by (simp add: take_bit_eq_mod)
lemma take_bit_16_mod: "take_bit 16 (v::int) = v mod 65536" by (simp add: take_bit_eq_mod)

lemmas pack_mod = pack_source_type [unfolded take_bit_1_mod] pack_source_id [unfolded take_bit_7_mod]
  pack_sink_type [unfolded take_bit_1_mod] pack_sink_id [unfolded take_bit_7_mod] pack_weight [unfolded take_bit_16_mod]

lemma encode_gene_pack:
  "encode_gene stype sid ktype kid wt =
     pack stype sid ktype kid
       (let r = max (- 32768) (min 32767 (py_int (wt * real_of_int WEIGHT_DIVISOR)))
        in if r < 0 then r + 65536 else r)"
  by (simp add: encode_gene_def pack_def Let_def and_1_take_bit and_127_take_bit and_65535_take_bit del: take_bit_Suc_0 One_nat_def)

lemma decode_gene_fields:
  "decode_gene gene =
    (let stype = drop_bit 31 gene mod 2;
         sid = drop_bit 24 gene mod 128;
         ktype = drop_bit 23 gene mod 2;
         kid = drop_bit 16 gene mod 128;
         raw = gene mod 65536
     in \<lparr>source_type = stype,
         source_id = (if stype = 0 then sid mod 14 else sid mod 4),
         sink_type = ktype,
         sink_id = (if ktype = 1 then kid mod 8 else kid mod 4),
         weight = real_of_int (if raw \<ge> 32768 then raw - 65536 else raw) / 8000\<rparr>)"
  by (simp add: decode_gene_def Let_def and_1_take_bit and_127_take_bit and_65535_take_bit
      NUM_SENSORS_def NUM_ACTIONS_def MAX_INTERNAL_NEURONS_def WEIGHT_DIVISOR_def take_bit_eq_mod)

lemma raw_roundtrip:
  assumes "- 32768 \<le> r" "r \<le> (32767::int)"
  shows "(let t = (if r < 0 then r + 65536 else r) mod 65536 in if t \<ge> 32768 then t - 65536 else t) = r"
  using assms by (auto simp add: Let_def)

lemma py_int_err: "\<bar>real_of_int (py_int v) - v\<bar> < 1"
  unfolding py_int_def by (auto; linarith)

text \<open>
  Claim C4. For every field tuple whose kinds are single bits, whose ids are valid indices of
  their pools (non-negative and below \<^const>\<open>NUM_SENSORS\<close>, \<^const>\<open>NUM_ACTIONS\<close> or
  \<^const>\<open>MAX_INTERNAL_NEURONS\<close> according to the kind) and whose scaled, truncated weight is
  in the signed 16-bit range, decoding the encoded gene gives back both kinds and both ids
  exactly, and a weight less than one quantisation step \<open>1 / WEIGHT_DIVISOR\<close> away from the
  original. The weight arithmetic is exact real arithmetic here.
\<close>

theorem decode_encode_roundtrip:
  assumes "stype = 0 \<or> stype = 1" and "ktype = 0 \<or> ktype = 1"
    and "0 \<le> sid" and "sid < (if stype = 0 then NUM_SENSORS else MAX_INTERNAL_NEURONS)"
    and "0 \<le> kid" and "kid < (if ktype = 1 then NUM_ACTIONS else MAX_INTERNAL_NEURONS)"
    and "- 32768 \<le> py_int (w * real_of_int WEIGHT_DIVISOR)"
    and "py_int (w * real_of_int WEIGHT_DIVISOR) \<le> 32767"
  shows "source_type (decode_gene (encode_gene stype sid ktype kid w)) = stype
       \<and> source_id (decode_gene (encode_gene stype sid ktype kid w)) = sid
       \<and> sink_type (decode_gene (encode_gene stype sid ktype kid w)) = ktype
       \<and> sink_id (decode_gene (encode_gene stype sid ktype kid w)) = kid
       \<and> \<bar>weight (decode_gene (encode_gene stype sid ktype kid w)) - w\<bar>
            < 1 / real_of_int WEIGHT_DIVISOR"
proof -
  define r where "r = py_int (w * real_of_int WEIGHT_DIVISOR)"
  define g where "g = encode_gene stype sid ktype kid w"
  have rb: "- 32768 \<le> r" "r \<le> 32767" using assms by (simp_all add: r_def)
  have g: "g = pack stype sid ktype kid (if r < 0 then r + 65536 else r)"
    using rb by (simp add: g_def encode_gene_pack r_def Let_def)
  have st: "drop_bit 31 g mod 2 = stype"
    using assms(1) by (auto simp add: g pack_mod)
  have kt: "drop_bit 23 g mod 2 = ktype"
    using assms(2) by (auto simp add: g pack_mod)
  have sidb: "sid < 14" "kid < 8"
    using assms(1,2,4,6) by (auto simp add: NUM_SENSORS_def NUM_ACTIONS_def MAX_INTERNAL_NEURONS_def split: if_splits)
  have si: "drop_bit 24 g mod 128 = sid"
    using assms(3) sidb by (simp add: g pack_mod)
  have ki: "drop_bit 16 g mod 128 = kid"
    using assms(5) sidb by (simp add: g pack_mod)
  have rw: "(let t = g mod 65536 in if t \<ge> 32768 then t - 65536 else t) = r"
    using raw_roundtrip[OF rb] by (simp add: g pack_mod)
  have wt: "weight (decode_gene g) = real_of_int r / 8000"
    using rw by (simp add: decode_gene_fields Let_def)
  have e: "\<bar>real_of_int r - w * 8000\<bar> < 1"
    using py_int_err[of "w * 8000"] by (simp add: r_def WEIGHT_DIVISOR_def)
  have "\<bar>real_of_int r / 8000 - w\<bar> = \<bar>real_of_int r - w * 8000\<bar> / 8000"
    by (simp add: field_simps)
  with e have wd: "\<bar>weight (decode_gene g) - w\<bar> < 1 / real_of_int WEIGHT_DIVISOR"
    by (simp add: wt WEIGHT_DIVISOR_def)
  have "source_type (decode_gene g) = stype" "sink_type (decode_gene g) = ktype"
    by (simp_all add: decode_gene_fields Let_def st kt)
  moreover have "source_id (decode_gene g) = sid"
    using assms(1,3,4) by (auto simp add: decode_gene_fields Let_def st si NUM_SENSORS_def MAX_INTERNAL_NEURONS_def)
  moreover have "sink_id (decode_gene g) = kid"
    using assms(2,5,6) by (auto simp add: decode_gene_fields Let_def kt ki NUM_ACTIONS_def MAX_INTERNAL_NEURONS_def)
  ultimately show ?thesis using wd by (simp add: g_def)
qed

theorem decode_encode_roundtrip_witness:
  "source_type (decode_gene (encode_gene 1 3 0 2 (- 1 / 3))) = 1
   \<and> source_id (decode_gene (encode_gene 1 3 0 2 (- 1 / 3))) = 3
   \<and> sink_type (decode_gene (encode_gene 1 3 0 2 (- 1 / 3))) = 0
   \<and> sink_id (decode_gene (encode_gene 1 3 0 2 (- 1 / 3))) = 2
   \<and> \<bar>weight (decode_gene (encode_gene 1 3 0 2 (- 1 / 3))) - (- 1 / 3)\<bar> < 1 / real_of_int WEIGHT_DIVISOR"
  by (rule decode_encode_roundtrip)
    (simp_all add: NUM_SENSORS_def NUM_ACTIONS_def MAX_INTERNAL_NEURONS_def WEIGHT_DIVISOR_def py_int_def)


lemma similarity_loop_same:
  "similarity_loop (zip g g) (t, m) = (t + 32 * int (length g), m + 32 * int (length g))"
proof (induction g arbitrary: t m)
  case Nil
  then show ?case by simp
next
  case (Cons a g)
  have "bin_count1 0 = 0" by (simp add: bin_count1_def count_ones.simps)
  then show ?case using Cons by (simp add: algebra_simps)
qed

text \<open>
  Claim C10. A non-empty genome has similarity exactly 1 to itself: every XOR is 0, so every
  gene contributes 32 matching bits out of 32.
\<close>

theorem genome_similarity_self: "g \<noteq> [] \<Longrightarrow> genome_similarity g g = 1"
  by (simp add: genome_similarity_def similarity_loop_same)

theorem genome_similarity_self_witness:
  "[5, - 7] \<noteq> ([]::int list) \<and> genome_similarity [5, - 7] [5, - 7] = 1"
  using genome_similarity_self [of "[5, - 7]"] by simp

subsection \<open>Pruning computes backward reachability from the actions\<close>

lemma useful_pass_sound:
  "u \<subseteq> useful_spec conns \<Longrightarrow> set cs \<subseteq> set conns
     \<Longrightarrow> fst (useful_pass cs u b) \<subseteq> useful_spec conns"
proof (induction cs arbitrary: u b)
  case Nil
  then show ?case by simp
next
  case (Cons c cs)
  have c: "c \<in> set conns" and cs: "set cs \<subseteq> set conns" using Cons.prems by auto
  show ?case
  proof (cases "source_type c = 1 \<and> source_id c \<notin> u \<and>
                (sink_type c = 1 \<or> sink_type c = 0 \<and> sink_id c \<in> u)")
    case True
    then have "source_id c \<in> useful_spec conns"
      using c Cons.prems(1) by (auto intro: useful_spec.intros)
    then have "insert (source_id c) u \<subseteq> useful_spec conns" using Cons.prems(1) by simp
    from Cons.IH [OF this cs, of True] True show ?thesis by auto
  next
    case False
    from Cons.IH [OF Cons.prems(1) cs, of b] False show ?thesis by auto
  qed
qed

lemma useful_pass_changed: "snd (useful_pass cs u True)"
  by (induction cs arbitrary: u) auto

lemma useful_pass_stable:
  "\<not> snd (useful_pass cs u b) \<Longrightarrow>
     fst (useful_pass cs u b) = u \<and>
     (\<forall>c\<in>set cs. source_type c = 1 \<and> (sink_type c = 1 \<or> sink_type c = 0 \<and> sink_id c \<in> u)
         \<longrightarrow> source_id c \<in> u)"
proof (induction cs arbitrary: b)
  case Nil
  then show ?case by simp
next
  case (Cons c cs)
  show ?case
  proof (cases "source_type c = 1 \<and> source_id c \<notin> u \<and>
                (sink_type c = 1 \<or> sink_type c = 0 \<and> sink_id c \<in> u)")
    case True
    with Cons.prems useful_pass_changed [of cs "insert (source_id c) u"] show ?thesis by auto
  next
    case False
    then have eq: "useful_pass (c # cs) u b = useful_pass cs u b" by auto
    from Cons.IH [of b] Cons.prems eq False show ?thesis by auto
  qed
qed

lemma useful_loop_sound:
  "u \<subseteq> useful_spec conns \<Longrightarrow> useful_loop conns u \<subseteq> useful_spec conns"
proof (induction conns u rule: useful_loop.induct)
  case (1 connections useful)
  obtain u' ch where p: "useful_pass connections useful False = (u', ch)"
    by (cases "useful_pass connections useful False")
  have u': "u' \<subseteq> useful_spec connections"
    using useful_pass_sound [OF "1.prems" subset_refl, of False] p by simp
  show ?case
  proof (cases ch)
    case True
    from "1.IH" [OF p [symmetric] True u'] p True show ?thesis
      by (simp add: useful_loop.simps [of connections useful])
  next
    case False
    with p u' show ?thesis by (simp add: useful_loop.simps [of connections useful])
  qed
qed

lemma useful_loop_closed:
  "\<forall>c\<in>set conns. source_type c = 1 \<and>
      (sink_type c = 1 \<or> sink_type c = 0 \<and> sink_id c \<in> useful_loop conns u)
      \<longrightarrow> source_id c \<in> useful_loop conns u"
proof (induction conns u rule: useful_loop.induct)
  case (1 connections useful)
  obtain u' ch where p: "useful_pass connections useful False = (u', ch)"
    by (cases "useful_pass connections useful False")
  show ?case
  proof (cases ch)
    case True
    from "1.IH" [OF p [symmetric] True] p True show ?thesis
      by (simp add: useful_loop.simps [of connections useful])
  next
    case False
    from useful_pass_stable [of connections useful False] p False
    have "u' = useful" and cl: "\<forall>c\<in>set connections. source_type c = 1 \<and>
        (sink_type c = 1 \<or> sink_type c = 0 \<and> sink_id c \<in> useful) \<longrightarrow> source_id c \<in> useful"
      by auto
    then have "useful_loop connections useful = useful" using p False
      by (simp add: useful_loop.simps [of connections useful])
    with cl show ?thesis by simp
  qed
qed

lemma useful_spec_least:
  assumes "\<forall>c\<in>set conns. source_type c = 1 \<and>
      (sink_type c = 1 \<or> sink_type c = 0 \<and> sink_id c \<in> U) \<longrightarrow> source_id c \<in> U"
  shows "useful_spec conns \<subseteq> U"
proof
  fix v assume "v \<in> useful_spec conns"
  then show "v \<in> U" using assms by induction auto
qed

lemma useful_loop_eq_spec: "useful_loop conns {} = useful_spec conns"
proof
  show "useful_loop conns {} \<subseteq> useful_spec conns" by (rule useful_loop_sound) simp
  show "useful_spec conns \<subseteq> useful_loop conns {}"
    by (rule useful_spec_least) (rule useful_loop_closed)
qed

lemma useful_spec_no_action:
  "\<forall>c\<in>set conns. sink_type c \<noteq> 1 \<Longrightarrow> useful_spec conns = {}"
proof -
  assume a: "\<forall>c\<in>set conns. sink_type c \<noteq> 1"
  have "v \<notin> useful_spec conns" for v
  proof
    assume "v \<in> useful_spec conns"
    then show False using a by induction auto
  qed
  then show ?thesis by blast
qed

text \<open>
  Claim C5. The connection list of a brain is the decoded genome filtered by: the sink is an
  action, or the sink id is in \<^const>\<open>useful_spec\<close> (the internal neurons that feed an
  action directly or through other useful internal neurons). In particular a genome whose
  decoded genes all sink into internal neurons has no active connection.
\<close>

theorem brain_connections_pruned:
  "brain_connections g =
     filter (\<lambda>c. sink_type c = 1 \<or> sink_id c \<in> useful_spec (parse_genome g))
       (parse_genome g)
   \<and> ((\<forall>c\<in>set (parse_genome g). sink_type c = 0) \<longrightarrow> brain_connections g = [])"
proof -
  have eq: "brain_connections g =
     filter (\<lambda>c. sink_type c = 1 \<or> sink_id c \<in> useful_spec (parse_genome g))
       (parse_genome g)"
    by (simp add: brain_connections_def prune_dead_ends_def useful_loop_eq_spec)
  have "brain_connections g = []" if a: "\<forall>c\<in>set (parse_genome g). sink_type c = 0"
  proof -
    from a have "useful_spec (parse_genome g) = {}"
      by (intro useful_spec_no_action) auto
    with a show ?thesis by (simp add: eq filter_empty_conv)
  qed
  with eq show ?thesis by blast
qed

theorem brain_connections_pruned_witness:
  "map sink_type (parse_genome [0x01020003, 0x81010004]) = [0, 0]
   \<and> brain_connections [0x01020003, 0x81010004] = []"
proof -
  have m: "map sink_type (parse_genome [0x01020003, 0x81010004]) = [0, 0]"
    by (simp add: parse_genome_def decode_gene_def)
  have h: "\<forall>c\<in>set (parse_genome [0x01020003, 0x81010004]). sink_type c = 0"
    by (simp add: parse_genome_def decode_gene_def)
  from brain_connections_pruned [of "[0x01020003, 0x81010004]"] h m show ?thesis by blast
qed

subsection \<open>The forward pass in closed form; its outputs are bounded\<close>

lemma decode_gene_in_range: "conn_in_range (decode_gene gene)"
proof -
  have b: "drop_bit 31 gene AND 1 = 0 \<or> drop_bit 31 gene AND 1 = 1"
    "drop_bit 23 gene AND 1 = 0 \<or> drop_bit 23 gene AND 1 = 1"
    by (auto simp add: and_one_eq)
  show ?thesis
    using b
    by (auto simp add: conn_in_range_def decode_gene_def Let_def NUM_SENSORS_def NUM_ACTIONS_def
        MAX_INTERNAL_NEURONS_def)
qed

lemma parse_genome_in_range: "c \<in> set (parse_genome g) \<Longrightarrow> conn_in_range c"
  by (auto simp add: parse_genome_def decode_gene_in_range)

lemma brain_connections_subset: "set (brain_connections g) \<subseteq> set (parse_genome g)"
  by (auto simp add: brain_connections_def prune_dead_ends_def)

lemma brain_connections_in_range: "c \<in> set (brain_connections g) \<Longrightarrow> conn_in_range c"
  using brain_connections_subset parse_genome_in_range by blast

lemma arr_get_ok: "0 \<le> i \<Longrightarrow> i < int (length xs) \<Longrightarrow> arr_get xs i = Inr (xs ! nat i)"
  by (simp add: arr_get_def py_index_def)

lemma arr_add_ok:
  "0 \<le> i \<Longrightarrow> i < int (length xs) \<Longrightarrow> arr_add xs i v = Inr (xs[nat i := xs ! nat i + v])"
  by (simp add: arr_add_def py_index_def)

lemma accumulate_sum:
  assumes "\<forall>c\<in>set cs. sink_type c = wanted \<longrightarrow>
      0 \<le> source_id c
      \<and> source_id c < int (if source_type c = 0 then length si else length iv)
      \<and> 0 \<le> sink_id c \<and> sink_id c < int (length totals)"
  shows "accumulate wanted cs si iv totals =
     Inr (map (\<lambda>k. totals ! k + contribution wanted cs si iv k) [0..<length totals])"
  using assms
proof (induction cs arbitrary: totals)
  case Nil
  show ?case by (simp add: contribution_def map_nth)
next
  case (Cons c cs)
  show ?case
  proof (cases "sink_type c = wanted")
    case False
    then have "contribution wanted (c # cs) si iv = contribution wanted cs si iv"
      by (simp add: contribution_def fun_eq_iff)
    with Cons False show ?thesis by simp
  next
    case True
    define v where "v = source_value si iv c * weight c"
    define j where "j = nat (sink_id c)"
    define t' where "t' = totals[j := totals ! j + v]"
    from Cons.prems True have r: "0 \<le> source_id c"
      "source_id c < int (if source_type c = 0 then length si else length iv)"
      "0 \<le> sink_id c" "sink_id c < int (length totals)" by auto
    have src: "(if source_type c = 0 then arr_get si (source_id c) else arr_get iv (source_id c))
        = Inr (source_value si iv c)"
      using r by (auto simp add: arr_get_ok source_value_def)
    have add: "arr_add totals (sink_id c) v = Inr t'"
      using r by (simp add: arr_add_ok t'_def j_def)
    have j: "j < length totals" "sink_id c = int j" using r by (simp_all add: j_def)
    have IH: "accumulate wanted cs si iv t' =
       Inr (map (\<lambda>k. t' ! k + contribution wanted cs si iv k) [0..<length t'])"
      using Cons.prems by (intro Cons.IH) (simp add: t'_def)
    have "t' ! k + contribution wanted cs si iv k = totals ! k + contribution wanted (c # cs) si iv k"
      if "k < length totals" for k
      using that True j by (auto simp add: t'_def contribution_def v_def nth_list_update)
    then have "map (\<lambda>k. t' ! k + contribution wanted cs si iv k) [0..<length t']
        = map (\<lambda>k. totals ! k + contribution wanted (c # cs) si iv k) [0..<length totals]"
      by (simp add: t'_def)
    with IH src add True show ?thesis by (simp add: v_def)
  qed
qed

lemma accumulate_in_range:
  assumes "\<forall>c\<in>set cs. conn_in_range c" and "length si = nat NUM_SENSORS"
    and "length iv = nat MAX_INTERNAL_NEURONS"
    and "wanted = 0 \<and> n = nat MAX_INTERNAL_NEURONS \<or> wanted = 1 \<and> n = nat NUM_ACTIONS"
  shows "accumulate wanted cs si iv (replicate n 0) =
     Inr (map (contribution wanted cs si iv) [0..<n])"
proof -
  have "accumulate wanted cs si iv (replicate n 0) =
     Inr (map (\<lambda>k. replicate n 0 ! k + contribution wanted cs si iv k) [0..<length (replicate n (0::real))])"
    using assms
    by (intro accumulate_sum)
      (auto simp add: conn_in_range_def NUM_SENSORS_def NUM_ACTIONS_def MAX_INTERNAL_NEURONS_def
        split: if_splits)
  then show ?thesis by simp
qed


lemma forward_closed_form:
  assumes "\<forall>c\<in>set cs. conn_in_range c" and "length si = nat NUM_SENSORS"
  shows "forward cs si =
     Inr (action_round cs si
            (internal_round cs si
               (internal_round cs si (replicate (nat MAX_INTERNAL_NEURONS) 0))))"
proof -
  have len: "length (internal_round cs si iv) = nat MAX_INTERNAL_NEURONS" for iv
    by (simp add: internal_round_def)
  have step: "propagate (Suc n) cs si iv = propagate n cs si (internal_round cs si iv)"
    if "length iv = nat MAX_INTERNAL_NEURONS" for n iv
    using accumulate_in_range [OF assms that, of 0 "nat MAX_INTERNAL_NEURONS"]
    by (simp add: internal_round_def)
  define z :: "real list" where "z = replicate (nat MAX_INTERNAL_NEURONS) 0"
  have "propagate 2 cs si z = propagate (Suc (Suc 0)) cs si z"
    by (simp only: numeral_2_eq_2)
  also have "\<dots> = propagate (Suc 0) cs si (internal_round cs si z)"
    by (rule step) (simp add: z_def)
  also have "\<dots> = propagate 0 cs si (internal_round cs si (internal_round cs si z))"
    by (rule step) (rule len)
  finally have "propagate 2 cs si (replicate (nat MAX_INTERNAL_NEURONS) 0) =
     Inr (internal_round cs si (internal_round cs si (replicate (nat MAX_INTERNAL_NEURONS) 0)))"
    by (simp add: z_def)
  moreover have "accumulate 1 cs si iv (replicate (nat NUM_ACTIONS) 0) =
      Inr (map (contribution 1 cs si iv) [0..<nat NUM_ACTIONS])"
    if "length iv = nat MAX_INTERNAL_NEURONS" for iv
    using accumulate_in_range [OF assms that, of 1 "nat NUM_ACTIONS"] by simp
  ultimately show ?thesis
    by (simp add: forward_def action_round_def len)
qed

lemma accumulate_length:
  "accumulate wanted cs si iv totals = Inr res \<Longrightarrow> length res = length totals"
proof (induction cs arbitrary: totals)
  case Nil
  then show ?case by simp
next
  case (Cons c cs)
  show ?case
  proof (cases "sink_type c = wanted")
    case False
    with Cons show ?thesis by simp
  next
    case True
    with Cons.prems obtain src totals' where
      "arr_add totals (sink_id c) (src * weight c) = Inr totals'"
      "accumulate wanted cs si iv totals' = Inr res"
      by (auto split: sum.splits)
    moreover from this(1) have "length totals' = length totals"
      by (auto simp add: arr_add_def split: option.splits)
    ultimately show ?thesis using Cons.IH by simp
  qed
qed

text \<open>
  Claim C9. For every genome and every sensor vector, whenever \<^const>\<open>forward\<close> on the brain
  built from the genome returns, the result has \<^const>\<open>NUM_ACTIONS\<close> entries and every entry
  lies in the closed interval from \<open>-1\<close> to \<open>1\<close>, whatever the weights are; and for a sensor
  vector of the declared shape (\<^const>\<open>NUM_SENSORS\<close> entries) it does return.
\<close>

theorem forward_bounded:
  "(\<forall>out. forward (brain_connections g) sensor_inputs = Inr out \<longrightarrow>
        length out = nat NUM_ACTIONS \<and> (\<forall>v\<in>set out. - 1 \<le> v \<and> v \<le> 1))
   \<and> (length sensor_inputs = nat NUM_SENSORS \<longrightarrow>
        (\<exists>out. forward (brain_connections g) sensor_inputs = Inr out))"
proof -
  have t: "- 1 \<le> tanh v \<and> tanh v \<le> 1" for v :: real
    using tanh_real_gt_neg1 [of v] tanh_real_lt_1 [of v] by simp
  have shape: "length out = nat NUM_ACTIONS \<and> (\<forall>v\<in>set out. - 1 \<le> v \<and> v \<le> 1)"
    if "forward cs sensor_inputs = Inr out" for cs out
  proof -
    from that obtain iv action_sums where
      a: "accumulate 1 cs sensor_inputs iv (replicate (nat NUM_ACTIONS) 0) = Inr action_sums"
      and o: "out = map tanh action_sums"
      by (auto simp add: forward_def split: sum.splits)
    from accumulate_length [OF a] have "length action_sums = nat NUM_ACTIONS" by simp
    with o t show ?thesis by auto
  qed
  have r: "\<forall>c\<in>set (brain_connections g). conn_in_range c"
    using brain_connections_in_range by blast
  have "\<exists>out. forward (brain_connections g) sensor_inputs = Inr out"
    if "length sensor_inputs = nat NUM_SENSORS"
    using forward_closed_form [OF r that] by simp
  with shape show ?thesis by blast
qed

theorem forward_bounded_witness:
  "length (replicate 14 (1 / 2 :: real)) = nat NUM_SENSORS
   \<and> (\<exists>out. forward (brain_connections [0x01020003, 0x81810004, 0x80010004])
                 (replicate 14 (1 / 2)) = Inr out
           \<and> length out = nat NUM_ACTIONS \<and> (\<forall>v\<in>set out. - 1 \<le> v \<and> v \<le> 1))"
proof -
  have h: "length (replicate 14 (1 / 2 :: real)) = nat NUM_SENSORS"
    by (simp add: NUM_SENSORS_def)
  from forward_bounded [of "[0x01020003, 0x81810004, 0x80010004]" "replicate 14 (1 / 2)"] h
  show ?thesis by blast
qed

subsection \<open>Pruning does not change the forward pass\<close>

lemma contribution_cong:
  assumes "\<forall>c\<in>set cs. sink_type c = wanted \<and> sink_id c = int k \<longrightarrow>
     keep c \<and> source_value si iv' c = source_value si iv c"
  shows "contribution wanted (filter keep cs) si iv' k = contribution wanted cs si iv k"
proof -
  have f: "filter (\<lambda>c. sink_type c = wanted \<and> sink_id c = int k) (filter keep cs)
      = filter (\<lambda>c. sink_type c = wanted \<and> sink_id c = int k) cs"
    using assms by (auto intro: filter_cong)
  have "sum_list (map (\<lambda>c. source_value si iv' c * weight c)
          (filter (\<lambda>c. sink_type c = wanted \<and> sink_id c = int k) cs))
      = sum_list (map (\<lambda>c. source_value si iv c * weight c)
          (filter (\<lambda>c. sink_type c = wanted \<and> sink_id c = int k) cs))"
    using assms by (intro arg_cong [where f = sum_list] map_cong) auto
  with f show ?thesis by (simp add: contribution_def)
qed

text \<open>
  Claim C8. For every genome and every sensor vector of the declared shape, the forward pass
  over the pruned connection list returns the same result as the forward pass over the full
  decoded connection list: a pruned connection sinks into an internal neuron that feeds
  neither an action nor a useful internal neuron.
\<close>

theorem prune_preserves_forward:
  assumes "length sensor_inputs = nat NUM_SENSORS"
  shows "forward (brain_connections g) sensor_inputs
       = forward (parse_genome g) sensor_inputs"
proof -
  define F where "F = parse_genome g"
  define U where "U = useful_loop F {}"
  define keep where "keep = (\<lambda>c :: conn. sink_type c = 1 \<or> sink_id c \<in> U)"
  define n where "n = nat MAX_INTERNAL_NEURONS"
  define agree where "agree = (\<lambda>iv iv' :: real list. \<forall>j<n. int j \<in> U \<longrightarrow> iv' ! j = iv ! j)"
  have P: "brain_connections g = filter keep F"
    by (simp add: brain_connections_def prune_dead_ends_def F_def U_def keep_def)
  have rF: "\<forall>c\<in>set F. conn_in_range c"
    using parse_genome_in_range by (auto simp add: F_def)
  have rP: "\<forall>c\<in>set (filter keep F). conn_in_range c" using rF by simp
  have closed: "source_id c \<in> U"
    if "c \<in> set F" "source_type c = 1" "sink_type c = 1 \<or> sink_type c = 0 \<and> sink_id c \<in> U" for c
    using useful_loop_closed [of F "{}"] that by (auto simp add: U_def)
  have src: "source_value sensor_inputs iv' c = source_value sensor_inputs iv c"
    if "c \<in> set F" "agree iv iv'" "sink_type c = 1 \<or> sink_type c = 0 \<and> sink_id c \<in> U" for c iv iv'
  proof (cases "source_type c = 0")
    case True
    then show ?thesis by (simp add: source_value_def)
  next
    case False
    with rF that(1) have st: "source_type c = 1" and b: "0 \<le> source_id c" "source_id c < int n"
      by (auto simp add: conn_in_range_def n_def MAX_INTERNAL_NEURONS_def)
    from closed [OF that(1) st that(3)] have "source_id c \<in> U" .
    with b that(2) have "iv' ! nat (source_id c) = iv ! nat (source_id c)"
      by (auto simp add: agree_def dest!: spec [of _ "nat (source_id c)"])
    with st show ?thesis by (simp add: source_value_def)
  qed
  have round: "agree (internal_round F sensor_inputs iv) (internal_round (filter keep F) sensor_inputs iv')"
    if a: "agree iv iv'" for iv iv'
    unfolding agree_def
  proof (intro allI impI)
    fix j assume j: "j < n" "int j \<in> U"
    have "contribution 0 (filter keep F) sensor_inputs iv' j = contribution 0 F sensor_inputs iv j"
      using j src [OF _ a] by (intro contribution_cong) (auto simp add: keep_def)
    with j show "internal_round (filter keep F) sensor_inputs iv' ! j
        = internal_round F sensor_inputs iv ! j"
      by (simp add: internal_round_def n_def)
  qed
  have act: "action_round (filter keep F) sensor_inputs iv' = action_round F sensor_inputs iv"
    if a: "agree iv iv'" for iv iv'
  proof -
    have "contribution 1 (filter keep F) sensor_inputs iv' k = contribution 1 F sensor_inputs iv k"
      for k
      using src [OF _ a] by (intro contribution_cong) (auto simp add: keep_def)
    then show ?thesis by (simp add: action_round_def)
  qed
  have a0: "agree (replicate n 0) (replicate n 0)" by (simp add: agree_def)
  show ?thesis
    unfolding P F_def [symmetric]
      forward_closed_form [OF rF assms] forward_closed_form [OF rP assms]
    using act [OF round [OF round [OF a0]]] by (simp add: n_def)
qed

theorem prune_preserves_forward_witness:
  "length (replicate 14 (1 / 2 :: real)) = nat NUM_SENSORS
   \<and> forward (brain_connections [0x01020003, 0x81810004, 0x80010004]) (replicate 14 (1 / 2))
     = forward (parse_genome [0x01020003, 0x81810004, 0x80010004]) (replicate 14 (1 / 2))"
proof -
  have h: "length (replicate 14 (1 / 2 :: real)) = nat NUM_SENSORS"
    by (simp add: NUM_SENSORS_def)
  from prune_preserves_forward [OF h, of "[0x01020003, 0x81810004, 0x80010004]"] h
  show ?thesis by blast
qed

subsection \<open>The action choice\<close>

lemma choose_loop_inv:
  "case choose_loop (enumerate n xs) (ba, bv) of (r, rv) \<Rightarrow>
     (\<forall>j<length xs. \<bar>xs ! j\<bar> \<le> rv) \<and>
     ((r = ba \<and> rv = bv) \<or>
      (\<exists>i<length xs. r = Some (n + i) \<and> rv = \<bar>xs ! i\<bar> \<and> bv < \<bar>xs ! i\<bar>
          \<and> (\<forall>j<i. \<bar>xs ! j\<bar> < \<bar>xs ! i\<bar>)))"
proof (induction xs arbitrary: n ba bv)
  case Nil
  show ?case by simp
next
  case (Cons x xs)
  show ?case
  proof (cases "\<bar>x\<bar> > bv")
    case True
    obtain r rv where res: "choose_loop (enumerate (Suc n) xs) (Some n, \<bar>x\<bar>) = (r, rv)"
      by (cases "choose_loop (enumerate (Suc n) xs) (Some n, \<bar>x\<bar>)")
    from Cons.IH [where n = "Suc n" and ba = "Some n" and bv = "\<bar>x\<bar>"] res
    have all: "\<forall>j<length xs. \<bar>xs ! j\<bar> \<le> rv"
      and alt: "(r = Some n \<and> rv = \<bar>x\<bar>) \<or>
        (\<exists>i<length xs. r = Some (Suc n + i) \<and> rv = \<bar>xs ! i\<bar> \<and> \<bar>x\<bar> < \<bar>xs ! i\<bar>
            \<and> (\<forall>j<i. \<bar>xs ! j\<bar> < \<bar>xs ! i\<bar>))"
      by auto
    from alt have xle: "\<bar>x\<bar> \<le> rv" by auto
    have A: "\<forall>j<length (x # xs). \<bar>(x # xs) ! j\<bar> \<le> rv"
      using all xle by (auto simp add: nth_Cons split: nat.splits)
    from alt have B: "\<exists>i<length (x # xs). r = Some (n + i) \<and> rv = \<bar>(x # xs) ! i\<bar>
        \<and> bv < \<bar>(x # xs) ! i\<bar> \<and> (\<forall>j<i. \<bar>(x # xs) ! j\<bar> < \<bar>(x # xs) ! i\<bar>)"
    proof
      assume "r = Some n \<and> rv = \<bar>x\<bar>"
      then show ?thesis using True by (intro exI [of _ 0]) simp
    next
      assume "\<exists>i<length xs. r = Some (Suc n + i) \<and> rv = \<bar>xs ! i\<bar> \<and> \<bar>x\<bar> < \<bar>xs ! i\<bar>
            \<and> (\<forall>j<i. \<bar>xs ! j\<bar> < \<bar>xs ! i\<bar>)"
      then obtain i where i: "i < length xs" "r = Some (Suc n + i)" "rv = \<bar>xs ! i\<bar>"
        "\<bar>x\<bar> < \<bar>xs ! i\<bar>" "\<forall>j<i. \<bar>xs ! j\<bar> < \<bar>xs ! i\<bar>" by blast
      show ?thesis
        using i True by (intro exI [of _ "Suc i"]) (auto simp add: nth_Cons split: nat.splits)
    qed
    show ?thesis using True res A B by simp
  next
    case False
    obtain r rv where res: "choose_loop (enumerate (Suc n) xs) (ba, bv) = (r, rv)"
      by (cases "choose_loop (enumerate (Suc n) xs) (ba, bv)")
    from Cons.IH [where n = "Suc n" and ba = ba and bv = bv] res
    have all: "\<forall>j<length xs. \<bar>xs ! j\<bar> \<le> rv"
      and alt: "(r = ba \<and> rv = bv) \<or>
        (\<exists>i<length xs. r = Some (Suc n + i) \<and> rv = \<bar>xs ! i\<bar> \<and> bv < \<bar>xs ! i\<bar>
            \<and> (\<forall>j<i. \<bar>xs ! j\<bar> < \<bar>xs ! i\<bar>))"
      by auto
    from alt False have xle: "\<bar>x\<bar> \<le> rv" by auto
    have A: "\<forall>j<length (x # xs). \<bar>(x # xs) ! j\<bar> \<le> rv"
      using all xle by (auto simp add: nth_Cons split: nat.splits)
    from alt have B: "(r = ba \<and> rv = bv) \<or> (\<exists>i<length (x # xs). r = Some (n + i) \<and> rv = \<bar>(x # xs) ! i\<bar>
        \<and> bv < \<bar>(x # xs) ! i\<bar> \<and> (\<forall>j<i. \<bar>(x # xs) ! j\<bar> < \<bar>(x # xs) ! i\<bar>))"
    proof
      assume "r = ba \<and> rv = bv"
      then show ?thesis by simp
    next
      assume "\<exists>i<length xs. r = Some (Suc n + i) \<and> rv = \<bar>xs ! i\<bar> \<and> bv < \<bar>xs ! i\<bar>
            \<and> (\<forall>j<i. \<bar>xs ! j\<bar> < \<bar>xs ! i\<bar>)"
      then obtain i where i: "i < length xs" "r = Some (Suc n + i)" "rv = \<bar>xs ! i\<bar>"
        "bv < \<bar>xs ! i\<bar>" "\<forall>j<i. \<bar>xs ! j\<bar> < \<bar>xs ! i\<bar>" by blast
      have "\<exists>i<length (x # xs). r = Some (n + i) \<and> rv = \<bar>(x # xs) ! i\<bar>
        \<and> bv < \<bar>(x # xs) ! i\<bar> \<and> (\<forall>j<i. \<bar>(x # xs) ! j\<bar> < \<bar>(x # xs) ! i\<bar>)"
        using i False by (intro exI [of _ "Suc i"]) (auto simp add: nth_Cons split: nat.splits)
      then show ?thesis ..
    qed
    show ?thesis using False res A B by simp
  qed
qed

lemma choose_action_cases:
  "(choose_action actions = None \<and> (\<forall>j<length actions. \<bar>actions ! j\<bar> \<le> THRESHOLD)) \<or>
   (\<exists>i<length actions. choose_action actions = Some i \<and> THRESHOLD < \<bar>actions ! i\<bar>
       \<and> (\<forall>j<length actions. \<bar>actions ! j\<bar> \<le> \<bar>actions ! i\<bar>)
       \<and> (\<forall>j<i. \<bar>actions ! j\<bar> < \<bar>actions ! i\<bar>))"
  using choose_loop_inv [where n = 0 and xs = actions and ba = None and bv = THRESHOLD]
  by (auto simp add: choose_action_def split: prod.splits)

text \<open>
  Claim C6. The choice made in a step is \<open>None\<close> exactly when no activation has an absolute
  value above the threshold \<open>0.1\<close>, and then nothing is executed; it is \<open>Some i\<close> exactly when
  \<open>i\<close> is the first index whose absolute activation is the largest one and is above the
  threshold (every earlier index is strictly smaller in magnitude, so an equal later one
  never replaces it), and then action \<open>i\<close> is executed with its activation as strength.
\<close>

theorem action_choice:
  "(choose_action actions = None \<longleftrightarrow> (\<forall>j<length actions. \<bar>actions ! j\<bar> \<le> THRESHOLD))
   \<and> (\<forall>i. choose_action actions = Some i \<longleftrightarrow>
         (i < length actions \<and> THRESHOLD < \<bar>actions ! i\<bar>
          \<and> (\<forall>j<length actions. \<bar>actions ! j\<bar> \<le> \<bar>actions ! i\<bar>)
          \<and> (\<forall>j<i. \<bar>actions ! j\<bar> < \<bar>actions ! i\<bar>)))
   \<and> ((\<forall>j<length actions. \<bar>actions ! j\<bar> \<le> THRESHOLD) \<longrightarrow> act_on ops w c actions = (Inr (), w))
   \<and> (\<forall>i. choose_action actions = Some i \<longrightarrow>
         act_on ops w c actions = execute_action ops w c i (actions ! i))"
proof -
  let ?P = "\<lambda>i. i < length actions \<and> THRESHOLD < \<bar>actions ! i\<bar>
          \<and> (\<forall>j<length actions. \<bar>actions ! j\<bar> \<le> \<bar>actions ! i\<bar>)
          \<and> (\<forall>j<i. \<bar>actions ! j\<bar> < \<bar>actions ! i\<bar>)"
  have none: "choose_action actions = None \<longleftrightarrow> (\<forall>j<length actions. \<bar>actions ! j\<bar> \<le> THRESHOLD)"
    using choose_action_cases [of actions] by (auto simp add: not_less [symmetric])
  have some: "choose_action actions = Some i \<longleftrightarrow> ?P i" for i
  proof
    assume "choose_action actions = Some i"
    then show "?P i" using choose_action_cases [of actions] by auto
  next
    assume i: "?P i"
    from choose_action_cases [of actions] i
    obtain k where k: "k < length actions" "choose_action actions = Some k"
       "\<forall>j<length actions. \<bar>actions ! j\<bar> \<le> \<bar>actions ! k\<bar>"
       "\<forall>j<k. \<bar>actions ! j\<bar> < \<bar>actions ! k\<bar>"
      by (auto simp add: not_le [symmetric])
    have "\<not> i < k" using i k by (auto simp add: not_less [symmetric])
    moreover have "\<not> k < i" using i k by (auto simp add: not_less [symmetric])
    ultimately have "k = i" by simp
    with k show "choose_action actions = Some i" by simp
  qed
  have idle: "act_on ops w c actions = (Inr (), w)"
    if "\<forall>j<length actions. \<bar>actions ! j\<bar> \<le> THRESHOLD"
    using that none by (simp add: act_on_def)
  have exec: "act_on ops w c actions = execute_action ops w c i (actions ! i)"
    if "choose_action actions = Some i" for i
    using that by (simp add: act_on_def)
  show ?thesis using none some idle exec by blast
qed

theorem action_choice_witness:
  "choose_action [1 / 20, - 1 / 2, 1 / 2, 1 / 5] = Some 1
   \<and> choose_action [1 / 20, - 1 / 10] = None"
proof -
  have a: "(1::nat) < length [1 / 20, - 1 / 2, 1 / 2, 1 / 5 :: real]
      \<and> THRESHOLD < \<bar>[1 / 20, - 1 / 2, 1 / 2, 1 / 5] ! 1\<bar>
      \<and> (\<forall>j<length [1 / 20, - 1 / 2, 1 / 2, 1 / 5 :: real].
            \<bar>[1 / 20, - 1 / 2, 1 / 2, 1 / 5] ! j\<bar> \<le> \<bar>[1 / 20, - 1 / 2, 1 / 2, 1 / 5 :: real] ! 1\<bar>)
      \<and> (\<forall>j<1. \<bar>[1 / 20, - 1 / 2, 1 / 2, 1 / 5] ! j\<bar> < \<bar>[1 / 20, - 1 / 2, 1 / 2, 1 / 5 :: real] ! 1\<bar>)"
    by (simp add: THRESHOLD_def All_less_Suc)
  have b: "\<forall>j<length [1 / 20, - 1 / 10 :: real]. \<bar>[1 / 20, - 1 / 10] ! j\<bar> \<le> THRESHOLD"
    by (simp add: THRESHOLD_def All_less_Suc)
  from action_choice [of "[1 / 20, - 1 / 2, 1 / 2, 1 / 5]"] a
  have 1: "choose_action [1 / 20, - 1 / 2, 1 / 2, 1 / 5] = Some 1" by blast
  from action_choice [of "[1 / 20, - 1 / 10]"] b
  have 2: "choose_action [1 / 20, - 1 / 10] = None" by blast
  from 1 2 show ?thesis by simp
qed

subsection \<open>The grid stays consistent\<close>

lemma py_index_SomeD: "py_index n i = Some j \<Longrightarrow> j < n"
  by (auto simp add: py_index_def split: if_splits)

lemma py_index_in_range: "0 \<le> i \<Longrightarrow> i < int n \<Longrightarrow> py_index n i = Some (nat i)"
  by (simp add: py_index_def)

lemma grid_get_InrD:
  "grid_get g gx gy = Inr v \<Longrightarrow>
     \<exists>a b. py_index (length g) gy = Some a \<and> py_index (length (g ! a)) gx = Some b \<and> v = g ! a ! b"
  by (auto simp add: grid_get_def arr_get_def split: option.splits)

lemma grid_set_InrD:
  "grid_set g gx gy v = Inr g' \<Longrightarrow>
     \<exists>a b. py_index (length g) gy = Some a \<and> py_index (length (g ! a)) gx = Some b
        \<and> g' = g[a := (g ! a)[b := v]]"
  by (auto simp add: grid_set_def arr_get_def arr_set_def split: option.splits)

lemma grid_refs_match_iff:
  "grid_refs_match w \<longleftrightarrow>
     (\<forall>a<length (grid w). \<forall>b<length (grid w ! a). \<forall>c. grid w ! a ! b = Some c \<longrightarrow>
        pos_x (store w c) = int b \<and> pos_y (store w c) = int a)"
  unfolding grid_refs_match_def list_all_length cell_matches_def
  by (auto simp add: nth_enumerate_eq split: option.splits)

lemma grid_shape_iff:
  "grid_shape w \<longleftrightarrow>
     length (grid w) = nat (height w) \<and> (\<forall>a<length (grid w). length (grid w ! a) = nat (width w))"
  unfolding grid_shape_def list_all_length by simp

lemma nested_update_nth:
  "a' < length g \<Longrightarrow> b' < length (g ! a') \<Longrightarrow>
     g[a := (g ! a)[b := v]] ! a' ! b' = (if a' = a \<and> b' = b then v else g ! a' ! b')"
  by (cases "a' = a") (auto simp add: nth_list_update)

lemma nested_update_length:
  "length (g[a := (g ! a)[b := v]]) = length g"
  "a' < length g \<Longrightarrow> length (g[a := (g ! a)[b := v]] ! a') = length (g ! a')"
  by (cases "a' = a"; simp add: nth_list_update)+

text \<open>In-bounds coordinates under the declared shape.\<close>

lemma in_bounds_index:
  assumes "grid_shape w" "in_bounds w gx gy"
  shows "py_index (length (grid w)) gy = Some (nat gy)"
    and "py_index (length (grid w ! nat gy)) gx = Some (nat gx)"
    and "nat gy < length (grid w)" and "nat gx < length (grid w ! nat gy)"
  using assms by (auto simp add: grid_shape_iff in_bounds_def py_index_def)

lemma grid_get_in_bounds:
  "grid_shape w \<Longrightarrow> in_bounds w gx gy \<Longrightarrow> grid_get (grid w) gx gy = Inr (grid w ! nat gy ! nat gx)"
  using in_bounds_index [of w gx gy] by (simp add: grid_get_def arr_get_def)

lemma grid_set_in_bounds:
  "grid_shape w \<Longrightarrow> in_bounds w gx gy \<Longrightarrow>
     grid_set (grid w) gx gy v = Inr ((grid w)[nat gy := (grid w ! nat gy)[nat gx := v]])"
  using in_bounds_index [of w gx gy] by (simp add: grid_set_def arr_get_def arr_set_def)


lemma world_ok_clear_cell:
  assumes ok: "world_ok w" and set: "grid_set (grid w) gx gy None = Inr g'"
  shows "world_ok (w\<lparr>grid := g'\<rparr>)"
proof -
  from grid_set_InrD [OF set] obtain a b where
    g': "g' = (grid w)[a := (grid w ! a)[b := None]]" by blast
  have shape: "grid_shape (w\<lparr>grid := g'\<rparr>)"
    using ok by (auto simp add: world_ok_def grid_shape_iff g' nested_update_length)
  have "grid_refs_match (w\<lparr>grid := g'\<rparr>)"
    unfolding grid_refs_match_iff
  proof (intro allI impI)
    fix a' b' c
    assume a': "a' < length (grid (w\<lparr>grid := g'\<rparr>))"
      and b': "b' < length (grid (w\<lparr>grid := g'\<rparr>) ! a')"
      and c: "grid (w\<lparr>grid := g'\<rparr>) ! a' ! b' = Some c"
    from a' b' have l: "a' < length (grid w)" "b' < length (grid w ! a')"
      by (simp_all add: g' nested_update_length)
    from c l have "grid w ! a' ! b' = Some c"
      by (simp add: g' nested_update_nth split: if_splits)
    with ok l show "pos_x (store (w\<lparr>grid := g'\<rparr>) c) = int b' \<and> pos_y (store (w\<lparr>grid := g'\<rparr>) c) = int a'"
      by (simp add: world_ok_def grid_refs_match_iff)
  qed
  with shape show ?thesis by (simp add: world_ok_def)
qed

lemma world_ok_place:
  assumes ok: "world_ok w" and r: "place_creature w c = (r, w')"
  shows "world_ok w'"
proof (cases "in_bounds w (pos_x (store w c)) (pos_y (store w c))
    \<and> grid_get (grid w) (pos_x (store w c)) (pos_y (store w c)) = Inr None")
  case False
  with r have "w' = w"
    by (auto simp add: place_creature_def Let_def split: sum.splits option.splits if_splits)
  with ok show ?thesis by simp
next
  case True
  define a where "a = nat (pos_y (store w c))"
  define b where "b = nat (pos_x (store w c))"
  define g' where "g' = (grid w)[a := (grid w ! a)[b := Some c]]"
  from ok have sh: "grid_shape w" by (simp add: world_ok_def)
  from True have ib: "in_bounds w (pos_x (store w c)) (pos_y (store w c))" by simp
  have p: "pos_x (store w c) = int b" "pos_y (store w c) = int a"
    using ib by (simp_all add: a_def b_def in_bounds_def)
  have "grid_set (grid w) (pos_x (store w c)) (pos_y (store w c)) (Some c) = Inr g'"
    using grid_set_in_bounds [OF sh ib] by (simp add: g'_def a_def b_def)
  with r True have w': "w' = w\<lparr>grid := g'\<rparr>"
    by (simp add: place_creature_def Let_def)
  have shape: "grid_shape w'"
    using sh by (auto simp add: grid_shape_iff w' g'_def nested_update_length)
  have "grid_refs_match w'"
    unfolding grid_refs_match_iff
  proof (intro allI impI)
    fix a' b' d
    assume a': "a' < length (grid w')" and b': "b' < length (grid w' ! a')"
      and d: "grid w' ! a' ! b' = Some d"
    from a' b' have l: "a' < length (grid w)" "b' < length (grid w ! a')"
      by (simp_all add: w' g'_def nested_update_length)
    show "pos_x (store w' d) = int b' \<and> pos_y (store w' d) = int a'"
    proof (cases "a' = a \<and> b' = b")
      case True
      with d l have "d = c" by (simp add: w' g'_def nested_update_nth)
      with True p show ?thesis by (simp add: w')
    next
      case False
      with d l have "grid w ! a' ! b' = Some d" by (simp add: w' g'_def nested_update_nth)
      with ok l show ?thesis by (simp add: world_ok_def grid_refs_match_iff w')
    qed
  qed
  with shape show ?thesis by (simp add: world_ok_def)
qed

lemma world_ok_remove:
  assumes ok: "world_ok w" and r: "remove_creature w c = (r, w')"
  shows "world_ok w'"
proof -
  from r have "w' = w \<or> (\<exists>g'. grid_set (grid w) (pos_x (store w c)) (pos_y (store w c)) None = Inr g'
      \<and> w' = w\<lparr>grid := g'\<rparr>)"
    by (auto simp add: remove_creature_def Let_def split: sum.splits if_splits)
  with ok world_ok_clear_cell show ?thesis by blast
qed


lemma grid_set_after_get:
  assumes "grid_get g gx gy = Inr v" and "length g1 = length g"
    and "\<forall>a<length g. length (g1 ! a) = length (g ! a)"
  shows "\<exists>a b. py_index (length g) gy = Some a \<and> py_index (length (g ! a)) gx = Some b
      \<and> v = g ! a ! b \<and> grid_set g1 gx gy u = Inr (g1[a := (g1 ! a)[b := u]])"
proof -
  from grid_get_InrD [OF assms(1)] obtain a b where
    ab: "py_index (length g) gy = Some a" "py_index (length (g ! a)) gx = Some b" "v = g ! a ! b"
    by blast
  from ab(1) have "a < length g" by (rule py_index_SomeD)
  with ab assms(2,3) have "grid_set g1 gx gy u = Inr (g1[a := (g1 ! a)[b := u]])"
    by (simp add: grid_set_def arr_get_def arr_set_def)
  with ab show ?thesis by blast
qed

text \<open>What a call of \<^const>\<open>move_creature\<close> can do: nothing, or the full move.\<close>

lemma move_creature_cases:
  assumes r: "move_creature w c dx dy = (r, w')"
  defines "nx \<equiv> max 0 (min (width w - 1) (pos_x (store w c) + dx))"
    and "ny \<equiv> max 0 (min (height w - 1) (pos_y (store w c) + dy))"
  shows "(w' = w \<and> r \<noteq> Inr True) \<or>
    (\<exists>a b a0 b0 cr2. r = Inr True
       \<and> \<not> (nx = pos_x (store w c) \<and> ny = pos_y (store w c))
       \<and> py_index (length (grid w)) ny = Some a \<and> py_index (length (grid w ! a)) nx = Some b
       \<and> grid w ! a ! b = None
       \<and> py_index (length (grid w)) (pos_y (store w c)) = Some a0
       \<and> py_index (length (grid w ! a0)) (pos_x (store w c)) = Some b0
       \<and> pos_x cr2 = nx \<and> pos_y cr2 = ny
       \<and> w' = w\<lparr>grid := ((grid w)[a0 := (grid w ! a0)[b0 := None]])
                     [a := ((grid w)[a0 := (grid w ! a0)[b0 := None]] ! a)[b := Some c]],
                 store := (store w)(c := cr2)\<rparr>)"
proof (cases "nx = pos_x (store w c) \<and> ny = pos_y (store w c)")
  case True
  with r show ?thesis by (auto simp add: move_creature_def Let_def nx_def ny_def)
next
  case stay: False
  show ?thesis
  proof (cases "grid_get (grid w) nx ny")
    case (Inl e)
    with r stay show ?thesis by (auto simp add: move_creature_def Let_def nx_def ny_def)
  next
    case (Inr cell)
    show ?thesis
    proof (cases cell)
      case (Some other)
      with r stay Inr show ?thesis by (auto simp add: move_creature_def Let_def nx_def ny_def)
    next
      case None
      show ?thesis
      proof (cases "grid_set (grid w) (pos_x (store w c)) (pos_y (store w c)) None")
        case (Inl e)
        with r stay Inr None show ?thesis
          by (auto simp add: move_creature_def Let_def nx_def ny_def)
      next
        case g1: (Inr g1)
        from grid_set_InrD [OF g1] obtain a0 b0 where
          ab0: "py_index (length (grid w)) (pos_y (store w c)) = Some a0"
            "py_index (length (grid w ! a0)) (pos_x (store w c)) = Some b0"
            "g1 = (grid w)[a0 := (grid w ! a0)[b0 := None]]" by blast
        have len: "length g1 = length (grid w)" "\<forall>a<length (grid w). length (g1 ! a) = length (grid w ! a)"
          by (simp_all add: ab0(3) nested_update_length)
        from grid_set_after_get [OF Inr len, of "Some c"] None obtain a b where
          ab: "py_index (length (grid w)) ny = Some a" "py_index (length (grid w ! a)) nx = Some b"
            "grid w ! a ! b = None" "grid_set g1 nx ny (Some c) = Inr (g1[a := (g1 ! a)[b := Some c]])"
          by auto
        define cr1 where "cr1 = (store w c)\<lparr>pos_x := nx, pos_y := ny\<rparr>"
        define cr2 where "cr2 =
           (if dx \<noteq> 0 \<or> dy \<noteq> 0 then
              (case find_dir (enumerate 0 DIRS) (py_sign dx) (py_sign dy) of
                 Some i \<Rightarrow> cr1\<lparr>last_dir := i\<rparr>
               | None \<Rightarrow> cr1)
            else cr1)"
        have pos2: "pos_x cr2 = nx" "pos_y cr2 = ny"
          by (auto simp add: cr2_def cr1_def split: option.splits)
        from r stay Inr None g1 ab(4)
        have "r = Inr True" and "w' = w\<lparr>grid := g1[a := (g1 ! a)[b := Some c]], store := (store w)(c := cr2)\<rparr>"
          by (auto simp add: move_creature_def Let_def nx_def [symmetric] ny_def [symmetric]
              cr1_def [symmetric] cr2_def)
        with stay ab ab0 pos2 show ?thesis by blast
      qed
    qed
  qed
qed


lemma world_ok_move:
  assumes ok: "world_ok w" and r: "move_creature w c dx dy = (r, w')"
  shows "world_ok w'"
proof -
  define nx where "nx = max 0 (min (width w - 1) (pos_x (store w c) + dx))"
  define ny where "ny = max 0 (min (height w - 1) (pos_y (store w c) + dy))"
  from move_creature_cases [OF r, folded nx_def ny_def]
  consider "w' = w"
    | a b a0 b0 cr2 where
      "py_index (length (grid w)) ny = Some a" "py_index (length (grid w ! a)) nx = Some b"
      "py_index (length (grid w)) (pos_y (store w c)) = Some a0"
      "py_index (length (grid w ! a0)) (pos_x (store w c)) = Some b0"
      "pos_x cr2 = nx" "pos_y cr2 = ny"
      "w' = w\<lparr>grid := ((grid w)[a0 := (grid w ! a0)[b0 := None]])
                     [a := ((grid w)[a0 := (grid w ! a0)[b0 := None]] ! a)[b := Some c]],
               store := (store w)(c := cr2)\<rparr>"
    by blast
  then show ?thesis
  proof cases
    case 1
    with ok show ?thesis by simp
  next
    case 2
    define g1 where "g1 = (grid w)[a0 := (grid w ! a0)[b0 := None]]"
    have al: "a < length (grid w)" "b < length (grid w ! a)"
      using 2(1,2) by (auto dest: py_index_SomeD)
    have nn: "0 \<le> nx" "0 \<le> ny" by (simp_all add: nx_def ny_def)
    have ab: "int a = ny" "int b = nx"
      using 2(1,2) nn by (auto simp add: py_index_def split: if_splits)
    have g1l: "length g1 = length (grid w)"
      "\<And>a'. a' < length (grid w) \<Longrightarrow> length (g1 ! a') = length (grid w ! a')"
      by (simp_all add: g1_def nested_update_length)
    have w': "w' = w\<lparr>grid := g1[a := (g1 ! a)[b := Some c]], store := (store w)(c := cr2)\<rparr>"
      using 2(7) by (simp add: g1_def)
    have shape: "grid_shape w'"
      using ok by (auto simp add: world_ok_def grid_shape_iff w' nested_update_length g1l)
    have "grid_refs_match w'"
      unfolding grid_refs_match_iff
    proof (intro allI impI)
      fix a' b' d
      assume a': "a' < length (grid w')" and b': "b' < length (grid w' ! a')"
        and d: "grid w' ! a' ! b' = Some d"
      from a' b' have l: "a' < length (grid w)" "b' < length (grid w ! a')"
        by (simp_all add: w' nested_update_length g1l)
      then have l1: "a' < length g1" "b' < length (g1 ! a')" by (simp_all add: g1l)
      show "pos_x (store w' d) = int b' \<and> pos_y (store w' d) = int a'"
      proof (cases "a' = a \<and> b' = b")
        case True
        with d l1 have "d = c" by (simp add: w' nested_update_nth)
        with True ab 2(5,6) show ?thesis by (simp add: w')
      next
        case False
        with d l1 have d1: "g1 ! a' ! b' = Some d" by (simp add: w' nested_update_nth)
        with l have ne: "\<not> (a' = a0 \<and> b' = b0)" and dg: "grid w ! a' ! b' = Some d"
          by (auto simp add: g1_def nested_update_nth split: if_splits)
        from ok l dg have pd: "pos_x (store w d) = int b'" "pos_y (store w d) = int a'"
          by (simp_all add: world_ok_def grid_refs_match_iff)
        have "d \<noteq> c"
        proof
          assume "d = c"
          with pd 2(3,4) l have "a0 = a'" "b0 = b'"
            by (auto simp add: py_index_def split: if_splits)
          with ne show False by simp
        qed
        with pd show ?thesis by (simp add: w')
      qed
    qed
    with shape show ?thesis by (simp add: world_ok_def)
  qed
qed

lemma world_ok_init: "world_ok (World_init wd ht r objs)"
  by (auto simp add: world_ok_def grid_shape_iff grid_refs_match_iff World_init_def empty_grid_def)

lemma world_ok_apply_op: "world_ok w \<Longrightarrow> apply_op w opn = (res, w') \<Longrightarrow> world_ok w'"
proof (cases opn)
  case (Place c)
  assume "world_ok w" "apply_op w opn = (res, w')"
  with Place world_ok_place [of w c _ w'] show ?thesis
    by (cases "place_creature w c") (auto split: sum.splits)
next
  case (Move c dx dy)
  assume "world_ok w" "apply_op w opn = (res, w')"
  with Move world_ok_move [of w c dx dy _ w'] show ?thesis
    by (cases "move_creature w c dx dy") (auto split: sum.splits)
next
  case (Remove c)
  assume "world_ok w" "apply_op w opn = (res, w')"
  with Remove world_ok_remove [of w c _ w'] show ?thesis
    by (cases "remove_creature w c") (auto split: sum.splits)
qed

lemma world_ok_run_ops: "world_ok w \<Longrightarrow> run_ops w ops = (res, w') \<Longrightarrow> world_ok w'"
proof (induction ops arbitrary: w)
  case Nil
  then show ?case by simp
next
  case (Cons opn ops)
  obtain e w1 where a: "apply_op w opn = (e, w1)" by (cases "apply_op w opn")
  from world_ok_apply_op [OF Cons.prems(1) a] have ok1: "world_ok w1" .
  show ?case
  proof (cases e)
    case None
    with Cons.prems(2) a have "run_ops w1 ops = (res, w')" by simp
    from Cons.IH [OF ok1 this] show ?thesis .
  next
    case (Some err)
    with Cons.prems(2) a have "w' = w1" by simp
    with ok1 show ?thesis by simp
  qed
qed

lemma get_creature_SomeD:
  assumes "world_ok w" "get_creature w gx gy = Inr (Some c)"
  shows "in_bounds w gx gy" and "grid w ! nat gy ! nat gx = Some c"
    and "pos_x (store w c) = gx" and "pos_y (store w c) = gy"
proof -
  from assms(2) show ib: "in_bounds w gx gy"
    by (auto simp add: get_creature_def split: if_splits)
  from assms have sh: "grid_shape w" by (simp add: world_ok_def)
  from assms(2) ib grid_get_in_bounds [OF sh ib]
  show c: "grid w ! nat gy ! nat gx = Some c" by (simp add: get_creature_def)
  from in_bounds_index [OF sh ib] c assms(1) ib
  show "pos_x (store w c) = gx" and "pos_y (store w c) = gy"
    by (auto simp add: world_ok_def grid_refs_match_iff in_bounds_def)
qed

lemmas world_eval = World_init_def empty_grid_def place_creature_def move_creature_def
  remove_creature_def grid_get_def grid_set_def arr_get_def arr_set_def py_index_def
  in_bounds_def fresh_creature_def Let_def get_creature_def DIRS_def py_sign_def
  demo_world_def demo_placed_def

text \<open>
  What the three operations do maintain, from the empty grid of a new world with any creature
  objects at any stored positions and through any sequence of calls (up to the first
  exception, if one is raised): every cell that refers to a creature is the cell at that
  creature's stored position.
\<close>

lemma grid_refs_consistent:
  assumes "run_ops (World_init wd ht r objs) ops = (res, w)"
    and "get_creature w gx gy = Inr (Some c)"
  shows "pos_x (store w c) = gx \<and> pos_y (store w c) = gy"
proof -
  have ok: "world_ok w" using world_ok_run_ops [OF world_ok_init assms(1)] .
  from get_creature_SomeD [OF ok assms(2)] show ?thesis by simp
qed



subsection \<open>Blocked moves\<close>

text \<open>
  Claim C3. In a world whose grid is consistent (\<^const>\<open>world_ok\<close>), for a creature that is
  on the grid at its stored position and any displacement, \<^const>\<open>move_creature\<close> returns
  without an exception; it returns \<open>False\<close> exactly when the clamped target is the current cell
  or holds another creature; when it returns \<open>False\<close> the world (grid, stored positions,
  headings) is unchanged, and when it returns \<open>True\<close> the world has changed. A creature at
  \<open>x = 0\<close> moved west (\<open>dx < 0\<close>, \<open>dy = 0\<close>) keeps \<open>x = 0\<close> and the call returns
  \<open>False\<close>.
\<close>

theorem move_creature_blocked:
  assumes ok: "world_ok w"
    and placed: "get_creature w (pos_x (store w c)) (pos_y (store w c)) = Inr (Some c)"
  shows "\<exists>b w'. move_creature w c dx dy = (Inr b, w')
     \<and> (\<not> b \<longleftrightarrow>
          clamped_target w c dx dy = (pos_x (store w c), pos_y (store w c))
          \<or> (\<exists>d. d \<noteq> c \<and> get_creature w (fst (clamped_target w c dx dy))
                                     (snd (clamped_target w c dx dy)) = Inr (Some d)))
     \<and> (\<not> b \<longrightarrow> w' = w)
     \<and> (b \<longrightarrow> w' \<noteq> w)
     \<and> (pos_x (store w c) = 0 \<and> dx < 0 \<and> dy = 0 \<longrightarrow> \<not> b \<and> pos_x (store w' c) = 0)"
proof -
  define px where "px = pos_x (store w c)"
  define py where "py = pos_y (store w c)"
  define nx where "nx = max 0 (min (width w - 1) (px + dx))"
  define ny where "ny = max 0 (min (height w - 1) (py + dy))"
  have ct: "clamped_target w c dx dy = (nx, ny)"
    by (simp add: clamped_target_def nx_def ny_def px_def py_def)
  from ok have sh: "grid_shape w" by (simp add: world_ok_def)
  have ib: "in_bounds w px py"
    using get_creature_SomeD(1) [OF ok placed] by (simp add: px_def py_def)
  then have ibn: "in_bounds w nx ny" by (auto simp add: in_bounds_def nx_def ny_def)
  have gg: "grid_get (grid w) nx ny = Inr (grid w ! nat ny ! nat nx)"
    by (rule grid_get_in_bounds [OF sh ibn])
  have gc: "get_creature w nx ny = Inr (grid w ! nat ny ! nat nx)"
    using ibn gg by (simp add: get_creature_def)
  have west: "nx = px \<and> ny = py" if "px = 0" "dx < 0" "dy = 0"
    using that ib by (auto simp add: nx_def ny_def in_bounds_def)
  show ?thesis
  proof (cases "nx = px \<and> ny = py")
    case True
    then have "move_creature w c dx dy = (Inr False, w)"
      by (simp add: move_creature_def Let_def nx_def ny_def px_def py_def)
    with True ct show ?thesis
      by (intro exI [of _ False] exI [of _ w]) (simp add: px_def py_def)
  next
    case away: False
    show ?thesis
    proof (cases "grid w ! nat ny ! nat nx")
      case (Some d)
      from get_creature_SomeD(3,4) [OF ok, of nx ny d] gc Some
      have "pos_x (store w d) = nx" "pos_y (store w d) = ny" by simp_all
      with away have "d \<noteq> c" by (auto simp add: px_def py_def)
      moreover have "move_creature w c dx dy = (Inr False, w)"
        using away gg Some
        by (simp add: move_creature_def Let_def nx_def [symmetric] ny_def [symmetric]
            px_def [symmetric] py_def [symmetric])
      ultimately show ?thesis
        using gc Some ct west away
        by (intro exI [of _ False] exI [of _ w]) (auto simp add: px_def py_def)
    next
      case None
      define g1 where "g1 = (grid w)[nat py := (grid w ! nat py)[nat px := None]]"
      have s1: "grid_set (grid w) px py None = Inr g1"
        using grid_set_in_bounds [OF sh ib] by (simp add: g1_def)
      have sh1: "grid_shape (w\<lparr>grid := g1\<rparr>)"
        using sh by (auto simp add: grid_shape_iff g1_def nested_update_length)
      have ib1: "in_bounds (w\<lparr>grid := g1\<rparr>) nx ny" using ibn by (simp add: in_bounds_def)
      from grid_set_in_bounds [OF sh1 ib1, of "Some c"]
      obtain g2 where s2: "grid_set g1 nx ny (Some c) = Inr g2" by simp
      obtain cr2 where mv: "move_creature w c dx dy = (Inr True, w\<lparr>grid := g2, store := (store w)(c := cr2)\<rparr>)"
        and p2: "pos_x cr2 = nx" "pos_y cr2 = ny"
      proof -
        define cr1 where "cr1 = (store w c)\<lparr>pos_x := nx, pos_y := ny\<rparr>"
        define cr2 where "cr2 =
           (if dx \<noteq> 0 \<or> dy \<noteq> 0 then
              (case find_dir (enumerate 0 DIRS) (py_sign dx) (py_sign dy) of
                 Some i \<Rightarrow> cr1\<lparr>last_dir := i\<rparr>
               | None \<Rightarrow> cr1)
            else cr1)"
        have "pos_x cr2 = nx" "pos_y cr2 = ny"
          by (auto simp add: cr2_def cr1_def split: option.splits)
        moreover have "move_creature w c dx dy
            = (Inr True, w\<lparr>grid := g2, store := (store w)(c := cr2)\<rparr>)"
          using away gg None s1 s2
          by (auto simp add: move_creature_def Let_def nx_def [symmetric] ny_def [symmetric]
              px_def [symmetric] py_def [symmetric] cr1_def [symmetric] cr2_def)
        ultimately show ?thesis using that by blast
      qed
      have "store (w\<lparr>grid := g2, store := (store w)(c := cr2)\<rparr>) c \<noteq> store w c"
        using p2 away by (auto simp add: px_def py_def)
      then have ne: "w\<lparr>grid := g2, store := (store w)(c := cr2)\<rparr> \<noteq> w" by metis
      show ?thesis
        using mv ne ct away gc None west
        by (intro exI [of _ True] exI [of _ "w\<lparr>grid := g2, store := (store w)(c := cr2)\<rparr>"])
          (auto simp add: px_def py_def)
    qed
  qed
qed

theorem move_creature_blocked_witness:
  "world_ok demo_placed
   \<and> get_creature demo_placed (pos_x (store demo_placed 0)) (pos_y (store demo_placed 0))
       = Inr (Some 0)
   \<and> move_creature demo_placed 0 (- 1) 0 = (Inr False, demo_placed)"
proof -
  have ok: "world_ok demo_placed"
    by (simp add: world_eval world_ok_def grid_shape_def grid_refs_match_def cell_matches_def)
  have pl: "get_creature demo_placed (pos_x (store demo_placed 0)) (pos_y (store demo_placed 0))
       = Inr (Some 0)"
    by (simp add: world_eval)
  have p0: "pos_x (store demo_placed 0) = 0" by (simp add: world_eval)
  from move_creature_blocked [OF ok pl, of "- 1" 0] p0
  have "move_creature demo_placed 0 (- 1) 0 = (Inr False, demo_placed)" by auto
  with ok pl show ?thesis by blast
qed

subsection \<open>Extinction ends the run\<close>

lemma brain_nil: "brain_connections [] = []"
  by (simp add: brain_connections_def prune_dead_ends_def parse_genome_def)

lemma forward_nil: "forward [] inputs = Inr (replicate 8 0)"
  by (simp add: forward_def numeral_2_eq_2 MAX_INTERNAL_NEURONS_def NUM_ACTIONS_def)

lemma choose_zero: "choose_action (replicate 8 0) = None"
  by (simp add: choose_action_def THRESHOLD_def numeral_nat)

lemmas grid_eval = grid_set_def grid_get_def arr_get_def arr_set_def py_index_def in_bounds_def
  get_creature_def

lemma demo_populate:
  "populate demo_rng ((World_init 2 2 () objs)\<lparr>store := objs'\<rparr>) [0] =
     (Inr (), \<lparr>width = 2, height = 2, rng = (), grid = [[Some 0, None], [None, None]],
               creatures = [0], murder_count = 0,
               store = objs'(0 := (objs' 0)\<lparr>pos_x := 0, pos_y := 0\<rparr>)\<rparr>)"
  by (simp add: populate_def clear_def World_init_def empty_grid_def demo_rng_def Let_def
      upto_rec1 grid_eval numeral_2_eq_2)

lemma demo_step:
  assumes "alive (objs 0)" "brain (objs 0) = []" "pos_x (objs 0) = 0" "pos_y (objs 0) = 0"
    "last_dir (objs 0) = 0"
  shows "step demo_rng \<lparr>width = 2, height = 2, rng = (), grid = [[Some 0, None], [None, None]],
               creatures = [0], murder_count = 0, store = objs\<rparr> 0 =
     (Inr (), \<lparr>width = 2, height = 2, rng = (), grid = [[Some 0, None], [None, None]],
               creatures = [0], murder_count = 0,
               store = objs(0 := (objs 0)\<lparr>age := age (objs 0) + 1,
                                           osc_phase := osc_phase (objs 0) + 2 * pi / 30\<rparr>)\<rparr>)"
  using assms
  by (simp add: step_def sense_def py_div_def demo_rng_def Let_def local_density_def
      forward_density_gradient_def DIRS_def upto_rec1 grid_eval
      forward_nil choose_zero act_on_def genetic_sim_to_def)

lemma run_one_generation_frame:
  "run_one_generation ops s genomes = (res, s1) \<Longrightarrow>
     stats s1 = stats s \<and> population s1 = population s \<and> max_generations s1 = max_generations s
     \<and> generation s1 = generation s"
  by (auto simp add: run_one_generation_def Let_def split: prod.splits sum.splits)

lemma demo_world_start:
  "(world (demo_sim\<lparr>generation := 0\<rparr>))\<lparr>store := (\<lambda>c. if c < length [[]::int list]
        then Creature_init 0 0 ([[]] ! c) else store (world (demo_sim\<lparr>generation := 0\<rparr>)) c)\<rparr>
   = (World_init 2 2 () (\<lambda>c. Creature_init 0 0 []))\<lparr>store := (\<lambda>c. Creature_init 0 0 [])\<rparr>"
  by (simp add: demo_sim_def Simulation_init_def World_init_def fun_eq_iff)

lemma demo_steps:
  "run_steps demo_rng ''east'' n
     (\<lparr>width = 2, height = 2, rng = (), grid = [[Some 0, None], [None, None]],
               creatures = [0], murder_count = 0, store = (\<lambda>c. Creature_init 0 0 [])\<rparr>
        \<lparr>murder_count := 0\<rparr>) [0] [0]
   = (Inr (), \<lparr>width = 2, height = 2, rng = (), grid = [[Some 0, None], [None, None]],
               creatures = [0], murder_count = 0,
               store = (\<lambda>c. Creature_init 0 0 [])
                 (0 := (Creature_init 0 0 [])\<lparr>age := 1, osc_phase := 2 * pi / 30\<rparr>)\<rparr>)"
proof -
  have a: "alive (Creature_init 0 0 [])" "brain (Creature_init 0 0 []) = []"
    "pos_x (Creature_init 0 0 []) = 0" "pos_y (Creature_init 0 0 []) = 0"
    "last_dir (Creature_init 0 0 []) = 0" "age (Creature_init 0 0 []) = 0"
    "osc_phase (Creature_init 0 0 []) = 0"
    by (simp_all add: Creature_init_def brain_nil)
  have p: "rng_permutation demo_rng (Suc 0) () = ([0], ())" by (simp add: demo_rng_def)
  show ?thesis
    using demo_step [of "\<lambda>c. Creature_init 0 0 []", OF a(1-5)]
    by (simp add: p arr_get_def py_index_def a)
qed


lemma demo_generation:
  "fst (run_one_generation demo_rng (demo_sim\<lparr>generation := 0\<rparr>) [[]]) = Inr ([], demo_stats)"
proof -
  have c: "selection_mode (demo_sim\<lparr>generation := 0\<rparr>) = ''east''"
      "steps_per_gen (demo_sim\<lparr>generation := 0\<rparr>) = 1"
      "generation (demo_sim\<lparr>generation := 0\<rparr>) = 0"
    by (simp_all add: demo_sim_def Simulation_init_def)
  have i: "Creature_init 0 0 [] \<lparr>pos_x := 0, pos_y := 0\<rparr> = Creature_init 0 0 []"
    by (simp add: Creature_init_def)
  have p: "populate demo_rng ((World_init 2 2 () (\<lambda>c. Creature_init 0 0 []))
              \<lparr>store := (\<lambda>c. Creature_init 0 0 [])\<rparr>) [0]
      = (Inr (), \<lparr>width = 2, height = 2, rng = (), grid = [[Some 0, None], [None, None]],
               creatures = [0], murder_count = 0, store = (\<lambda>c. Creature_init 0 0 [])\<rparr>)"
    by (simp add: demo_populate i fun_eq_iff)
  have l: "[0..<length [[]::int list]] = [0]" "[0..<(1::nat)] = [0]" by simp_all
  show ?thesis
    unfolding run_one_generation_def Let_def demo_world_start c l p prod.case sum.case demo_steps
    by (simp add: select_def selected_def Creature_init_def compute_stats_def
        genetic_diversity_def demo_stats_def)
qed

lemma length_random_genomes: "length (fst (random_genomes ops gsize n r)) = n"
proof (induction n arbitrary: r)
  case 0
  show ?case by simp
next
  case (Suc n)
  obtain g r1 where a: "random_genome ops gsize r = (g, r1)" by (cases "random_genome ops gsize r")
  obtain gs r2 where b: "random_genomes ops gsize n r1 = (gs, r2)"
    by (cases "random_genomes ops gsize n r1")
  from Suc [of r1] b have "length gs = n" by simp
  with a b show ?case by simp
qed

text \<open>
  Claim C1, as the code has it. When a generation ends with no survivor, the generation loop
  appends that generation's statistics and ends the run, whatever generations remain: it
  does not breed a next batch. The reproduction routine itself, given an empty survivor list,
  returns a full random restart: exactly \<open>population\<close> genomes, each drawn by
  \<^const>\<open>random_genome\<close>.
\<close>

theorem extinction_ends_run:
  assumes "run_one_generation ops (s\<lparr>generation := gen_idx\<rparr>) genomes = (Inr ([], st), s1)"
  shows "run_generations ops clock s genomes (gen_idx # later)
           = (Inr (), s1\<lparr>stats := stats s1 @ [st\<lparr>st_elapsed_s := clock gen_idx\<rparr>]\<rparr>)
       \<and> (\<exists>gs r'. reproduce ops s' [] = (Inr gs, s'\<lparr>world := (world s')\<lparr>rng := r'\<rparr>\<rparr>)
             \<and> (gs, r') = random_genomes ops (genome_size s') (population s') (rng (world s'))
             \<and> length gs = population s')"
proof -
  obtain gs r' where g: "random_genomes ops (genome_size s') (population s') (rng (world s')) = (gs, r')"
    by (cases "random_genomes ops (genome_size s') (population s') (rng (world s'))")
  have "length gs = population s'"
    using length_random_genomes [of ops "genome_size s'" "population s'" "rng (world s')"] g by simp
  moreover have "reproduce ops s' [] = (Inr gs, s'\<lparr>world := (world s')\<lparr>rng := r'\<rparr>\<rparr>)"
    using g by (simp add: reproduce_def)
  moreover have "run_generations ops clock s genomes (gen_idx # later)
           = (Inr (), s1\<lparr>stats := stats s1 @ [st\<lparr>st_elapsed_s := clock gen_idx\<rparr>]\<rparr>)"
    using assms by (simp add: Let_def)
  ultimately show ?thesis using g by auto
qed

theorem extinction_ends_run_witness:
  "fst (run_one_generation demo_rng (demo_sim\<lparr>generation := 0\<rparr>) [[]]) = Inr ([], demo_stats)
   \<and> fst (run_generations demo_rng (\<lambda>n. 0) demo_sim [[]] [0, 1, 2]) = Inr ()
   \<and> stats (snd (run_generations demo_rng (\<lambda>n. 0) demo_sim [[]] [0, 1, 2])) = [demo_stats]"
proof -
  obtain s1 where e: "run_one_generation demo_rng (demo_sim\<lparr>generation := 0\<rparr>) [[]]
      = (Inr ([], demo_stats), s1)"
    using demo_generation
    by (cases "run_one_generation demo_rng (demo_sim\<lparr>generation := 0\<rparr>) [[]]") simp
  have st: "stats s1 = []"
    using run_one_generation_frame [OF e] by (simp add: demo_sim_def Simulation_init_def)
  from extinction_ends_run [OF e, of "\<lambda>n. 0" "[1, 2]"]
  have "run_generations demo_rng (\<lambda>n. 0) demo_sim [[]] [0, 1, 2]
      = (Inr (), s1\<lparr>stats := stats s1 @ [demo_stats\<lparr>st_elapsed_s := 0\<rparr>]\<rparr>)"
    by blast
  with st demo_generation show ?thesis by (simp add: demo_stats_def)
qed

text \<open>
  The claim as stated fails: in the demo run three generations are asked for; the one
  creature is placed in the cell \<open>(0, 0)\<close>, never moves (its genome is empty) and so is not in
  the eastern half; the first generation ends with no survivor, and the run returns with
  that single generation in its history.
\<close>

theorem extinction_restart_counterexample:
  "max_generations demo_sim = 3
   \<and> fst (run demo_rng (\<lambda>n. 0) demo_sim) = Inr ()
   \<and> map st_survivors (stats (snd (run demo_rng (\<lambda>n. 0) demo_sim))) = [0]"
proof -
  obtain s1 where e: "run_one_generation demo_rng (demo_sim\<lparr>generation := 0\<rparr>) [[]]
      = (Inr ([], demo_stats), s1)"
    using demo_generation
    by (cases "run_one_generation demo_rng (demo_sim\<lparr>generation := 0\<rparr>) [[]]") simp
  have st: "stats s1 = []"
    using run_one_generation_frame [OF e] by (simp add: demo_sim_def Simulation_init_def)
  have m: "max_generations demo_sim = 3" "population demo_sim = Suc 0" "genome_size demo_sim = 0"
    "demo_sim\<lparr>world := (world demo_sim)\<lparr>rng := ()\<rparr>\<rparr> = demo_sim"
    by (simp_all add: demo_sim_def Simulation_init_def)
  have u: "[0..<3] = [0, 1, 2]" by (simp add: upt_rec)
  have "run demo_rng (\<lambda>n. 0) demo_sim = run_generations demo_rng (\<lambda>n. 0) demo_sim [[]] [0, 1, 2]"
    by (simp add: run_def run_all_generations_def m random_genome_def demo_rng_def u)
  also have "\<dots> = (Inr (), s1\<lparr>stats := stats s1 @ [demo_stats\<lparr>st_elapsed_s := 0\<rparr>]\<rparr>)"
    by (simp only: run_generations.simps e prod.case sum.case Let_def if_True simp_thms)
  finally show ?thesis using st m by (simp add: demo_stats_def)
qed

end
